theory Spec2Isabelle
  imports Main "HOL-Library.Word" "HOL-Library.Product_Lexorder" "HOL-Library.Multiset"
begin

section \<open>The contest ledger: MinesweeperChallenge.sol\<close>

text \<open>
  The Solidity contract of \<^verbatim>\<open>src/scripts/MinesweeperChallenge.sol\<close> (lines 1-266).
  A \<^verbatim>\<open>uint256\<close> is a natural number below \<open>2 ^ 256\<close>; Solidity 0.8 checks every
  \<^verbatim>\<open>+\<close>, \<^verbatim>\<open>-\<close> and \<^verbatim>\<open>*\<close> and reverts with a panic on overflow, which the model writes
  out as a branch. An \<^verbatim>\<open>address\<close> is a 160-bit word (\<^verbatim>\<open>address(0)\<close> is \<open>0\<close>), a
  \<^verbatim>\<open>bytes32\<close> a 256-bit word whose byte 0 is the most significant one.
  A transaction either reverts (no state change at all) or returns the new state.
\<close>

type_synonym address = "160 word"
type_synonym bytes32 = "256 word"

definition MAX_UINT256 :: nat where
  "MAX_UINT256 = 2 ^ 256 - 1"

datatype failure = Revert string | Panic

record contest =
  startTime :: nat
  endTime :: nat
  entryFee :: nat
  totalPrizePool :: nat
  players :: "address list"
  hasEntered :: "address \<Rightarrow> bool"
  bestMoves :: "address \<Rightarrow> nat"
  bestTime :: "address \<Rightarrow> nat"
  commitments :: "address \<Rightarrow> bytes32"
  prizesDistributed :: bool

record ledger =
  weeklyContests :: "nat \<Rightarrow> contest"
  currentContestId :: nat
  platformFeePercentage :: nat
  platformFeeReceiver :: address
  owner :: address

text \<open>
  What a transaction sees of its environment: \<^verbatim>\<open>msg.sender\<close>, \<^verbatim>\<open>msg.value\<close>,
  \<^verbatim>\<open>block.timestamp\<close>, and whether a low-level \<^verbatim>\<open>call{value: v}("")\<close> to an address
  succeeds (that is decided by the recipient and the balance, outside the contract).
\<close>

record env =
  msg_sender :: address
  msg_value :: nat
  block_timestamp :: nat
  call_ok :: "address \<Rightarrow> nat \<Rightarrow> bool"

text \<open>Storage that was never written reads as zero.\<close>

definition empty_contest :: contest where
  "empty_contest = \<lparr> startTime = 0, endTime = 0, entryFee = 0, totalPrizePool = 0,
     players = [], hasEntered = (\<lambda>_. False), bestMoves = (\<lambda>_. 0), bestTime = (\<lambda>_. 0),
     commitments = (\<lambda>_. 0), prizesDistributed = False \<rparr>"

text \<open>The constructor (with Ownable's): the deployer owns the contract and receives the fee.\<close>

definition constructor :: "address \<Rightarrow> ledger" where
  "constructor deployer = \<lparr> weeklyContests = (\<lambda>_. empty_contest), currentContestId = 0,
     platformFeePercentage = 500, platformFeeReceiver = deployer, owner = deployer \<rparr>"

definition createWeeklyContest :: "env \<Rightarrow> nat \<Rightarrow> nat \<Rightarrow> nat \<Rightarrow> ledger \<Rightarrow> failure + ledger" where
  "createWeeklyContest e startTime' endTime' entryFee' s =
     (if msg_value e \<noteq> 0 then Inl (Revert ''non-payable'')
      else if msg_sender e \<noteq> owner s then Inl (Revert ''Ownable: caller is not the owner'')
      else if \<not> startTime' < endTime' then Inl (Revert ''Invalid time range'')
      else if \<not> startTime' \<ge> block_timestamp e then Inl (Revert ''Start time must be in the future'')
      else if currentContestId s + 1 > MAX_UINT256 then Inl Panic
      else
        let cid = currentContestId s + 1;
            newContest = weeklyContests s cid
        in Inr (s\<lparr> currentContestId := cid,
                  weeklyContests := (weeklyContests s)
                    (cid := newContest\<lparr> startTime := startTime', endTime := endTime',
                                         entryFee := entryFee' \<rparr>) \<rparr>))"

definition enterContest :: "env \<Rightarrow> nat \<Rightarrow> bytes32 \<Rightarrow> ledger \<Rightarrow> failure + ledger" where
  "enterContest e contestId commitment s =
     (let contest = weeklyContests s contestId in
      if \<not> block_timestamp e \<ge> startTime contest then Inl (Revert ''Contest not started'')
      else if \<not> block_timestamp e < endTime contest then Inl (Revert ''Contest ended'')
      else if \<not> msg_value e = entryFee contest then Inl (Revert ''Incorrect entry fee'')
      else if hasEntered contest (msg_sender e) then Inl (Revert ''Already entered'')
      else if totalPrizePool contest + msg_value e > MAX_UINT256 then Inl Panic
      else Inr (s\<lparr> weeklyContests := (weeklyContests s)
                  (contestId := contest\<lparr>
                      players := players contest @ [msg_sender e],
                      hasEntered := (hasEntered contest)(msg_sender e := True),
                      commitments := (commitments contest)(msg_sender e := commitment),
                      totalPrizePool := totalPrizePool contest + msg_value e \<rparr>) \<rparr>))"

text \<open>\<^verbatim>\<open>uint256(uint8(_proof[0]))\<close>: the first (most significant) byte of the proof.\<close>

definition proof_byte0 :: "bytes32 \<Rightarrow> 8 word" where
  "proof_byte0 p = ucast (drop_bit 248 p)"

definition submitGameCompletion ::
  "env \<Rightarrow> nat \<Rightarrow> nat \<Rightarrow> bytes32 \<Rightarrow> bytes32 \<Rightarrow> ledger \<Rightarrow> failure + ledger" where
  "submitGameCompletion e contestId moves secret proof s =
     (let contest = weeklyContests s contestId in
      if msg_value e \<noteq> 0 then Inl (Revert ''non-payable'')
      else if \<not> hasEntered contest (msg_sender e) then Inl (Revert ''Not entered in contest'')
      else if \<not> block_timestamp e < endTime contest then Inl (Revert ''Contest ended'')
      else if \<not> moves > 0 then Inl (Revert ''Invalid move count'')
      else if \<not> commitments contest (msg_sender e) \<noteq> 0 then Inl (Revert ''No commitment found'')
      else if bestMoves contest (msg_sender e) = 0 \<or> moves < bestMoves contest (msg_sender e)
      then
        let timeTaken = unat (proof_byte0 proof)
        in Inr (s\<lparr> weeklyContests := (weeklyContests s)
                  (contestId := contest\<lparr>
                      bestMoves := (bestMoves contest)(msg_sender e := moves),
                      bestTime := (bestTime contest)(msg_sender e := timeTaken) \<rparr>) \<rparr>)
      else Inr s)"

subsection \<open>distributePrizes\<close>

text \<open>
  The inner loop \<^verbatim>\<open>for (uint k = 2; k > j; k--)\<close> that shifts the lower places down by
  one, on the two three-element memory arrays \<^verbatim>\<open>scores\<close> and \<^verbatim>\<open>winners\<close>.
\<close>

fun shift_down :: "nat \<Rightarrow> nat \<Rightarrow> nat list \<times> address list \<Rightarrow> nat list \<times> address list" where
  "shift_down 0 j (scores, winners) = (scores, winners)"
| "shift_down (Suc k) j (scores, winners) =
     (if Suc k > j
      then shift_down k j (scores[Suc k := scores ! k], winners[Suc k := winners ! k])
      else (scores, winners))"

text \<open>
  The loop \<^verbatim>\<open>for (uint j = 0; j < 3; j++)\<close>: the player takes the first place whose
  score is strictly greater than theirs, and the loop breaks.
\<close>

function place_top3 ::
  "nat \<Rightarrow> nat \<Rightarrow> address \<Rightarrow> nat list \<times> address list \<Rightarrow> nat list \<times> address list" where
  "place_top3 j score player (scores, winners) =
     (if j < 3 then
        (if score < scores ! j then
           (case shift_down 2 j (scores, winners) of
              (scores', winners') \<Rightarrow> (scores'[j := score], winners'[j := player]))
         else place_top3 (j + 1) score player (scores, winners))
      else (scores, winners))"
  by pat_completeness auto
termination
  by (relation "measure (\<lambda>(j, _). 3 - j)") auto

declare place_top3.simps [simp del]

text \<open>
  The loop over \<^verbatim>\<open>contest.players\<close>: players without a completion are skipped, the
  composite score is \<^verbatim>\<open>moves * 1000 + time\<close> in checked arithmetic.
\<close>

fun find_top3 ::
  "contest \<Rightarrow> address list \<Rightarrow> nat list \<times> address list \<Rightarrow> failure + nat list \<times> address list" where
  "find_top3 contest [] acc = Inr acc"
| "find_top3 contest (player # rest) acc =
     (let moves = bestMoves contest player in
      if moves = 0 then find_top3 contest rest acc
      else
        let time = bestTime contest player in
        if moves * 1000 + time > MAX_UINT256 then Inl Panic
        else find_top3 contest rest (place_top3 0 (moves * 1000 + time) player acc))"

text \<open>
  The loop that sends the prizes: \<^verbatim>\<open>i\<close> runs over the three places; the result is the
  list of transfers made (in order) and \<^verbatim>\<open>totalSent\<close>.
\<close>

function send_prizes ::
  "env \<Rightarrow> address list \<Rightarrow> nat list \<Rightarrow> nat \<Rightarrow> (address \<times> nat) list \<Rightarrow> nat
    \<Rightarrow> failure + (address \<times> nat) list \<times> nat" where
  "send_prizes e winners prizeShares i sent totalSent =
     (if i < 3 then
        (if winners ! i \<noteq> 0 \<and> prizeShares ! i > 0 then
           (if \<not> call_ok e (winners ! i) (prizeShares ! i) then Inl (Revert ''Prize transfer failed'')
            else if totalSent + prizeShares ! i > MAX_UINT256 then Inl Panic
            else send_prizes e winners prizeShares (i + 1)
                   (sent @ [(winners ! i, prizeShares ! i)]) (totalSent + prizeShares ! i))
         else send_prizes e winners prizeShares (i + 1) sent totalSent)
      else Inr (sent, totalSent))"
  by pat_completeness auto
termination
  by (relation "measure (\<lambda>(e, winners, prizeShares, i, _). 3 - i)") auto

declare send_prizes.simps [simp del]

text \<open>
  \<^verbatim>\<open>distributePrizes\<close> returns the new state and the transfers it made, in order:
  the platform fee, the prizes of the places taken, and the remainder to the owner.
\<close>

definition distributePrizes ::
  "env \<Rightarrow> nat \<Rightarrow> ledger \<Rightarrow> failure + ledger \<times> (address \<times> nat) list" where
  "distributePrizes e contestId s =
     (let contest = weeklyContests s contestId in
      if msg_value e \<noteq> 0 then Inl (Revert ''non-payable'')
      else if msg_sender e \<noteq> owner s then Inl (Revert ''Ownable: caller is not the owner'')
      else if \<not> block_timestamp e \<ge> endTime contest then Inl (Revert ''Contest not ended'')
      else if prizesDistributed contest then Inl (Revert ''Prizes already distributed'')
      else if \<not> length (players contest) > 0 then Inl (Revert ''No players'')
      else if totalPrizePool contest * platformFeePercentage s > MAX_UINT256 then Inl Panic
      else
        let platformFee = (totalPrizePool contest * platformFeePercentage s) div 10000;
            prizesToDistribute = totalPrizePool contest - platformFee
        in
        if platformFee > totalPrizePool contest then Inl Panic
        else if platformFee > 0 \<and> \<not> call_ok e (platformFeeReceiver s) platformFee
        then Inl (Revert ''Platform fee transfer failed'')
        else
          let feeSent = (if platformFee > 0 then [(platformFeeReceiver s, platformFee)] else []) in
          case find_top3 contest (players contest)
                 (replicate 3 MAX_UINT256, replicate 3 0) of
            Inl err \<Rightarrow> Inl err
          | Inr (scores, winners) \<Rightarrow>
              if prizesToDistribute * 50 > MAX_UINT256 then Inl Panic
              else
                let prizeShares = [prizesToDistribute * 50 div 100,
                                   prizesToDistribute * 30 div 100,
                                   prizesToDistribute * 20 div 100] in
                case send_prizes e winners prizeShares 0 [] 0 of
                  Inl err \<Rightarrow> Inl err
                | Inr (sent, totalSent) \<Rightarrow>
                    if totalSent < prizesToDistribute
                       \<and> \<not> call_ok e (owner s) (prizesToDistribute - totalSent)
                    then Inl (Revert ''Remaining prize transfer failed'')
                    else
                      let remainingSent =
                            (if totalSent < prizesToDistribute
                             then [(owner s, prizesToDistribute - totalSent)] else [])
                      in Inr (s\<lparr> weeklyContests := (weeklyContests s)
                                  (contestId := contest\<lparr> prizesDistributed := True \<rparr>) \<rparr>,
                              feeSent @ sent @ remainingSent))"

definition updatePlatformFee :: "env \<Rightarrow> nat \<Rightarrow> ledger \<Rightarrow> failure + ledger" where
  "updatePlatformFee e newFeePercentage s =
     (if msg_value e \<noteq> 0 then Inl (Revert ''non-payable'')
      else if msg_sender e \<noteq> owner s then Inl (Revert ''Ownable: caller is not the owner'')
      else if \<not> newFeePercentage \<le> 1000 then Inl (Revert ''Fee too high'')
      else Inr (s\<lparr> platformFeePercentage := newFeePercentage \<rparr>))"

definition updateFeeReceiver :: "env \<Rightarrow> address \<Rightarrow> ledger \<Rightarrow> failure + ledger" where
  "updateFeeReceiver e newReceiver s =
     (if msg_value e \<noteq> 0 then Inl (Revert ''non-payable'')
      else if msg_sender e \<noteq> owner s then Inl (Revert ''Ownable: caller is not the owner'')
      else if \<not> newReceiver \<noteq> 0 then Inl (Revert ''Invalid address'')
      else Inr (s\<lparr> platformFeeReceiver := newReceiver \<rparr>))"

section \<open>The contest ledger: MinesweeperChallenge.vy\<close>

text \<open>
  The Vyper variant keeps the per-player mappings at the top level, keyed by contest id,
  and counts the players instead of listing them. \<^verbatim>\<open>assert\<close> reverts, \<^verbatim>\<open>send\<close>
  reverts when the transfer fails, arithmetic on \<^verbatim>\<open>uint256\<close> is checked.
\<close>

record vy_contest =
  vy_startTime :: nat
  vy_endTime :: nat
  vy_entryFee :: nat
  vy_totalPrizePool :: nat
  vy_prizesDistributed :: bool
  vy_playerCount :: nat

record vy_ledger =
  vy_owner :: address
  vy_currentContestId :: nat
  vy_platformFeePercentage :: nat
  vy_platformFeeReceiver :: address
  vy_weeklyContests :: "nat \<Rightarrow> vy_contest"
  vy_hasEntered :: "nat \<Rightarrow> address \<Rightarrow> bool"
  vy_bestMoves :: "nat \<Rightarrow> address \<Rightarrow> nat"
  vy_bestTime :: "nat \<Rightarrow> address \<Rightarrow> nat"
  vy_commitments :: "nat \<Rightarrow> address \<Rightarrow> bytes32"

definition vy_empty_contest :: vy_contest where
  "vy_empty_contest = \<lparr> vy_startTime = 0, vy_endTime = 0, vy_entryFee = 0,
     vy_totalPrizePool = 0, vy_prizesDistributed = False, vy_playerCount = 0 \<rparr>"

definition vy_init :: "address \<Rightarrow> vy_ledger" where
  "vy_init deployer = \<lparr> vy_owner = deployer, vy_currentContestId = 0,
     vy_platformFeePercentage = 500, vy_platformFeeReceiver = deployer,
     vy_weeklyContests = (\<lambda>_. vy_empty_contest), vy_hasEntered = (\<lambda>_ _. False),
     vy_bestMoves = (\<lambda>_ _. 0), vy_bestTime = (\<lambda>_ _. 0), vy_commitments = (\<lambda>_ _. 0) \<rparr>"

definition vy_createWeeklyContest ::
  "env \<Rightarrow> nat \<Rightarrow> nat \<Rightarrow> nat \<Rightarrow> vy_ledger \<Rightarrow> failure + vy_ledger" where
  "vy_createWeeklyContest e startTime' endTime' entryFee' s =
     (if msg_value e \<noteq> 0 then Inl (Revert ''non-payable'')
      else if \<not> msg_sender e = vy_owner s then Inl (Revert ''Only owner'')
      else if \<not> startTime' < endTime' then Inl (Revert ''Invalid time range'')
      else if \<not> startTime' \<ge> block_timestamp e then Inl (Revert ''Start time must be in future'')
      else if vy_currentContestId s + 1 > MAX_UINT256 then Inl Panic
      else
        let cid = vy_currentContestId s + 1
        in Inr (s\<lparr> vy_currentContestId := cid,
                  vy_weeklyContests := (vy_weeklyContests s)
                    (cid := \<lparr> vy_startTime = startTime', vy_endTime = endTime',
                              vy_entryFee = entryFee', vy_totalPrizePool = 0,
                              vy_prizesDistributed = False, vy_playerCount = 0 \<rparr>) \<rparr>))"

definition vy_enterContest :: "env \<Rightarrow> nat \<Rightarrow> bytes32 \<Rightarrow> vy_ledger \<Rightarrow> failure + vy_ledger" where
  "vy_enterContest e contestId commitment s =
     (let contest = vy_weeklyContests s contestId in
      if \<not> block_timestamp e \<ge> vy_startTime contest then Inl (Revert ''Contest not started'')
      else if \<not> block_timestamp e < vy_endTime contest then Inl (Revert ''Contest ended'')
      else if \<not> msg_value e = vy_entryFee contest then Inl (Revert ''Incorrect entry fee'')
      else if vy_hasEntered s contestId (msg_sender e) then Inl (Revert ''Already entered'')
      else if vy_totalPrizePool contest + msg_value e > MAX_UINT256 then Inl Panic
      else if vy_playerCount contest + 1 > MAX_UINT256 then Inl Panic
      else Inr (s\<lparr>
        vy_hasEntered := (vy_hasEntered s)
          (contestId := (vy_hasEntered s contestId)(msg_sender e := True)),
        vy_commitments := (vy_commitments s)
          (contestId := (vy_commitments s contestId)(msg_sender e := commitment)),
        vy_weeklyContests := (vy_weeklyContests s)
          (contestId := contest\<lparr>
              vy_totalPrizePool := vy_totalPrizePool contest + msg_value e,
              vy_playerCount := vy_playerCount contest + 1 \<rparr>) \<rparr>))"

definition vy_submitGameCompletion ::
  "env \<Rightarrow> nat \<Rightarrow> nat \<Rightarrow> bytes32 \<Rightarrow> bytes32 \<Rightarrow> vy_ledger \<Rightarrow> failure + vy_ledger" where
  "vy_submitGameCompletion e contestId moves secret proof s =
     (let contest = vy_weeklyContests s contestId in
      if msg_value e \<noteq> 0 then Inl (Revert ''non-payable'')
      else if \<not> vy_hasEntered s contestId (msg_sender e) then Inl (Revert ''Not entered in contest'')
      else if \<not> block_timestamp e < vy_endTime contest then Inl (Revert ''Contest ended'')
      else if \<not> moves > 0 then Inl (Revert ''Invalid move count'')
      else if \<not> vy_commitments s contestId (msg_sender e) \<noteq> 0
        then Inl (Revert ''No commitment found'')
      else if vy_bestMoves s contestId (msg_sender e) = 0
              \<or> moves < vy_bestMoves s contestId (msg_sender e)
      then
        let timeTaken = unat (proof_byte0 proof)
        in Inr (s\<lparr>
             vy_bestMoves := (vy_bestMoves s)
               (contestId := (vy_bestMoves s contestId)(msg_sender e := moves)),
             vy_bestTime := (vy_bestTime s)
               (contestId := (vy_bestTime s contestId)(msg_sender e := timeTaken)) \<rparr>)
      else Inr s)"

definition vy_distributePrizes ::
  "env \<Rightarrow> nat \<Rightarrow> vy_ledger \<Rightarrow> failure + vy_ledger \<times> (address \<times> nat) list" where
  "vy_distributePrizes e contestId s =
     (if msg_value e \<noteq> 0 then Inl (Revert ''non-payable'')
      else if \<not> msg_sender e = vy_owner s then Inl (Revert ''Only owner'')
      else
        let contest = vy_weeklyContests s contestId in
        if \<not> block_timestamp e \<ge> vy_endTime contest then Inl (Revert ''Contest not ended'')
        else if vy_prizesDistributed contest then Inl (Revert ''Prizes already distributed'')
        else if \<not> vy_playerCount contest > 0 then Inl (Revert ''No players'')
        else if vy_totalPrizePool contest * vy_platformFeePercentage s > MAX_UINT256
          then Inl Panic
        else
          let platformFee = (vy_totalPrizePool contest * vy_platformFeePercentage s) div 10000;
              prizesToDistribute = vy_totalPrizePool contest - platformFee
          in
          if platformFee > vy_totalPrizePool contest then Inl Panic
          else if platformFee > 0 \<and> \<not> call_ok e (vy_platformFeeReceiver s) platformFee
            then Inl (Revert ''send failed'')
          else if prizesToDistribute > 0 \<and> \<not> call_ok e (vy_owner s) prizesToDistribute
            then Inl (Revert ''send failed'')
          else Inr (s\<lparr> vy_weeklyContests := (vy_weeklyContests s)
                       (contestId := (vy_weeklyContests s contestId)
                          \<lparr> vy_prizesDistributed := True \<rparr>) \<rparr>,
                    (if platformFee > 0 then [(vy_platformFeeReceiver s, platformFee)] else [])
                    @ (if prizesToDistribute > 0 then [(vy_owner s, prizesToDistribute)] else [])))"

definition vy_updatePlatformFee :: "env \<Rightarrow> nat \<Rightarrow> vy_ledger \<Rightarrow> failure + vy_ledger" where
  "vy_updatePlatformFee e newFeePercentage s =
     (if msg_value e \<noteq> 0 then Inl (Revert ''non-payable'')
      else if \<not> msg_sender e = vy_owner s then Inl (Revert ''Only owner'')
      else if \<not> newFeePercentage \<le> 1000 then Inl (Revert ''Fee too high'')
      else Inr (s\<lparr> vy_platformFeePercentage := newFeePercentage \<rparr>))"

definition vy_updateFeeReceiver :: "env \<Rightarrow> address \<Rightarrow> vy_ledger \<Rightarrow> failure + vy_ledger" where
  "vy_updateFeeReceiver e newReceiver s =
     (if msg_value e \<noteq> 0 then Inl (Revert ''non-payable'')
      else if \<not> msg_sender e = vy_owner s then Inl (Revert ''Only owner'')
      else if \<not> newReceiver \<noteq> 0 then Inl (Revert ''Invalid address'')
      else Inr (s\<lparr> vy_platformFeeReceiver := newReceiver \<rparr>))"

section \<open>Transactions and reachable ledger states\<close>

text \<open>
  The external, state-changing functions of the contract as a datatype of calls, and the
  ledger states that a sequence of transactions can reach from the constructor's state.
  A reverted transaction leaves the state as it was. Ownable's
  \<^verbatim>\<open>transferOwnership\<close> and \<^verbatim>\<open>renounceOwnership\<close> (inherited by the Solidity contract;
  their source is OpenZeppelin's) only replace the owner, the second by \<^verbatim>\<open>address(0)\<close>.
\<close>

datatype call =
    CreateWeeklyContest nat nat nat
  | EnterContest nat bytes32
  | SubmitGameCompletion nat nat bytes32 bytes32
  | DistributePrizes nat
  | UpdatePlatformFee nat
  | UpdateFeeReceiver address
  | TransferOwnership address
  | RenounceOwnership

definition transferOwnership :: "env \<Rightarrow> address \<Rightarrow> ledger \<Rightarrow> failure + ledger" where
  "transferOwnership e newOwner s =
     (if msg_value e \<noteq> 0 then Inl (Revert ''non-payable'')
      else if msg_sender e \<noteq> owner s then Inl (Revert ''Ownable: caller is not the owner'')
      else if \<not> newOwner \<noteq> 0 then Inl (Revert ''Ownable: new owner is the zero address'')
      else Inr (s\<lparr> owner := newOwner \<rparr>))"

definition renounceOwnership :: "env \<Rightarrow> ledger \<Rightarrow> failure + ledger" where
  "renounceOwnership e s =
     (if msg_value e \<noteq> 0 then Inl (Revert ''non-payable'')
      else if msg_sender e \<noteq> owner s then Inl (Revert ''Ownable: caller is not the owner'')
      else Inr (s\<lparr> owner := 0 \<rparr>))"

fun exec :: "env \<Rightarrow> call \<Rightarrow> ledger \<Rightarrow> failure + ledger" where
  "exec e (CreateWeeklyContest st en fee) s = createWeeklyContest e st en fee s"
| "exec e (EnterContest cid com) s = enterContest e cid com s"
| "exec e (SubmitGameCompletion cid moves secret proof) s =
     submitGameCompletion e cid moves secret proof s"
| "exec e (DistributePrizes cid) s = map_sum id fst (distributePrizes e cid s)"
| "exec e (UpdatePlatformFee n) s = updatePlatformFee e n s"
| "exec e (UpdateFeeReceiver a) s = updateFeeReceiver e a s"
| "exec e (TransferOwnership a) s = transferOwnership e a s"
| "exec e RenounceOwnership s = renounceOwnership e s"

inductive reachable :: "ledger \<Rightarrow> bool" where
  init: "reachable (constructor deployer)"
| step: "reachable s \<Longrightarrow> exec e c s = Inr s' \<Longrightarrow> reachable s'"

text \<open>The Vyper contract has no ownership transfer.\<close>

fun vy_exec :: "env \<Rightarrow> call \<Rightarrow> vy_ledger \<Rightarrow> failure + vy_ledger" where
  "vy_exec e (CreateWeeklyContest st en fee) s = vy_createWeeklyContest e st en fee s"
| "vy_exec e (EnterContest cid com) s = vy_enterContest e cid com s"
| "vy_exec e (SubmitGameCompletion cid moves secret proof) s =
     vy_submitGameCompletion e cid moves secret proof s"
| "vy_exec e (DistributePrizes cid) s = map_sum id fst (vy_distributePrizes e cid s)"
| "vy_exec e (UpdatePlatformFee n) s = vy_updatePlatformFee e n s"
| "vy_exec e (UpdateFeeReceiver a) s = vy_updateFeeReceiver e a s"
| "vy_exec e (TransferOwnership a) s = Inl (Revert ''no such function'')"
| "vy_exec e RenounceOwnership s = Inl (Revert ''no such function'')"

inductive vy_reachable :: "vy_ledger \<Rightarrow> bool" where
  vy_init: "vy_reachable (vy_init deployer)"
| vy_step: "vy_reachable s \<Longrightarrow> vy_exec e c s = Inr s' \<Longrightarrow> vy_reachable s'"

text \<open>
  Running a list of transactions, each in its own environment; a reverted one changes
  nothing. The result is the final state and, per transaction, whether it succeeded.
\<close>

fun run :: "(env \<times> call) list \<Rightarrow> ledger \<Rightarrow> ledger \<times> bool list" where
  "run [] s = (s, [])"
| "run ((e, c) # rest) s =
     (case exec e c s of
        Inl _ \<Rightarrow> (case run rest s of (s', oks) \<Rightarrow> (s', False # oks))
      | Inr s1 \<Rightarrow> (case run rest s1 of (s', oks) \<Rightarrow> (s', True # oks)))"

fun vy_run :: "(env \<times> call) list \<Rightarrow> vy_ledger \<Rightarrow> vy_ledger \<times> bool list" where
  "vy_run [] s = (s, [])"
| "vy_run ((e, c) # rest) s =
     (case vy_exec e c s of
        Inl _ \<Rightarrow> (case vy_run rest s of (s', oks) \<Rightarrow> (s', False # oks))
      | Inr s1 \<Rightarrow> (case vy_run rest s1 of (s', oks) \<Rightarrow> (s', True # oks)))"

section \<open>The game server: generateMinefield\<close>

text \<open>
  \<^verbatim>\<open>generateMinefield(width, height, mineCount)\<close> of \<^verbatim>\<open>src/scripts/server.js\<close> (lines
  42-83; the copy in the second server file is the same code). A board is an array of
  rows; a cell holds \<^verbatim>\<open>"X"\<close> or a number. \<open>Hole\<close> is an array slot that was never
  written (JavaScript extends an array that is written past its end).

  The dimensions are array lengths and the mine count is a loop bound that starts from 0:
  natural numbers. The two \<^verbatim>\<open>Math.floor(Math.random() * width)\<close> and
  \<^verbatim>\<open>Math.floor(Math.random() * height)\<close> of each iteration are the pairs \<open>(x, y)\<close> of
  the list \<open>draws\<close>, a finite prefix of the random sequence. The loop
  \<^verbatim>\<open>while (mines < mineCount)\<close> may run forever: when the draws are used up and the loop
  has not ended, the result is \<open>Unfinished\<close>.
\<close>

datatype cell = Mine | Num nat | Hole

type_synonym board = "cell list list"

datatype js_error = TypeError | RangeError

datatype 'a outcome = Returned 'a | Threw js_error | Unfinished

text \<open>\<^verbatim>\<open>Math.abs(x - safeX) <= 1 && Math.abs(y - safeY) <= 1\<close>\<close>

definition in_safe_area :: "nat \<Rightarrow> nat \<Rightarrow> nat \<Rightarrow> nat \<Rightarrow> bool" where
  "in_safe_area safeX safeY x y =
     (\<bar>int x - int safeX\<bar> \<le> 1 \<and> \<bar>int y - int safeY\<bar> \<le> 1)"

text \<open>
  \<^verbatim>\<open>board[y][x]\<close> for a row \<open>y\<close> that exists: \<open>None\<close> is \<^verbatim>\<open>undefined\<close>, read past
  the end of the row.
\<close>

definition read_cell :: "board \<Rightarrow> nat \<Rightarrow> nat \<Rightarrow> cell option" where
  "read_cell board x y = (if x < length (board ! y) then Some (board ! y ! x) else None)"

text \<open>\<^verbatim>\<open>board[y][x] = v\<close> for a row \<open>y\<close> that exists.\<close>

definition write_cell :: "board \<Rightarrow> nat \<Rightarrow> nat \<Rightarrow> cell \<Rightarrow> board" where
  "write_cell board x y v =
     board[y := (let row = board ! y in
                 if x < length row then row[x := v]
                 else row @ replicate (x - length row) Hole @ [v])]"

text \<open>
  The placement loop. \<^verbatim>\<open>board[y]\<close> of a row that does not exist is \<^verbatim>\<open>undefined\<close>,
  and reading \<^verbatim>\<open>[x]\<close> of it throws a TypeError.
\<close>

fun place_mines ::
  "nat \<Rightarrow> nat \<Rightarrow> nat \<Rightarrow> (nat \<times> nat) list \<Rightarrow> board \<Rightarrow> nat \<Rightarrow> board outcome" where
  "place_mines safeX safeY mineCount [] board mines =
     (if mines < mineCount then Unfinished else Returned board)"
| "place_mines safeX safeY mineCount ((x, y) # draws) board mines =
     (if mines < mineCount then
        (if in_safe_area safeX safeY x y
           then place_mines safeX safeY mineCount draws board mines
         else if \<not> y < length board then Threw TypeError
         else if read_cell board x y \<noteq> Some Mine
           then place_mines safeX safeY mineCount draws (write_cell board x y Mine) (mines + 1)
         else place_mines safeX safeY mineCount draws board mines)
      else Returned board)"

text \<open>The eight offsets \<open>(dx, dy)\<close> in the order of the two inner loops.\<close>

definition offsets :: "(int \<times> int) list" where
  "offsets = [(dx, dy). dy \<leftarrow> [-1, 0, 1], dx \<leftarrow> [-1, 0, 1], \<not> (dx = 0 \<and> dy = 0)]"

definition count_adjacent :: "nat \<Rightarrow> nat \<Rightarrow> board \<Rightarrow> nat \<Rightarrow> nat \<Rightarrow> nat" where
  "count_adjacent width height board x y =
     length (filter (\<lambda>(dx, dy).
        let nx = int x + dx; ny = int y + dy
        in nx \<ge> 0 \<and> nx < int width \<and> ny \<ge> 0 \<and> ny < int height
           \<and> read_cell board (nat nx) (nat ny) = Some Mine) offsets)"

text \<open>The loops over \<open>y\<close> and \<open>x\<close> that write the numbers into the board, in place.\<close>

definition calculate_cell :: "nat \<Rightarrow> nat \<Rightarrow> nat \<Rightarrow> nat \<Rightarrow> board \<Rightarrow> board" where
  "calculate_cell width height y x board =
     (if read_cell board x y = Some Mine then board
      else write_cell board x y (Num (count_adjacent width height board x y)))"

definition calculate_numbers :: "nat \<Rightarrow> nat \<Rightarrow> board \<Rightarrow> board" where
  "calculate_numbers width height board =
     fold (\<lambda>y. fold (calculate_cell width height y) [0..<width]) [0..<height] board"

definition generateMinefield ::
  "nat \<Rightarrow> nat \<Rightarrow> nat \<Rightarrow> (nat \<times> nat) list \<Rightarrow> board outcome" where
  "generateMinefield width height mineCount draws =
     (let safeX = width div 2;
          safeY = height div 2;
          board = replicate height (replicate width (Num 0))
      in case place_mines safeX safeY mineCount draws board 0 of
           Returned b \<Rightarrow> Returned (calculate_numbers width height b)
         | Threw err \<Rightarrow> Threw err
         | Unfinished \<Rightarrow> Unfinished)"

text \<open>
  What \<^verbatim>\<open>Math.floor(Math.random() * n)\<close> can be for a natural \<open>n\<close>, with
  \<^verbatim>\<open>Math.random()\<close> in \<open>[0, 1)\<close>: a number below \<open>n\<close>, and \<open>0\<close> when \<open>n\<close> is \<open>0\<close>.
\<close>

definition draw_ok :: "nat \<Rightarrow> nat \<Rightarrow> bool" where
  "draw_ok n x = (if n = 0 then x = 0 else x < n)"

definition draws_ok :: "nat \<Rightarrow> nat \<Rightarrow> (nat \<times> nat) list \<Rightarrow> bool" where
  "draws_ok width height draws = list_all (\<lambda>(x, y). draw_ok width x \<and> draw_ok height y) draws"

text \<open>\<^verbatim>\<open>countMines\<close>: \<^verbatim>\<open>board.flat().filter((cell) => cell === "X").length\<close>\<close>

definition countMines :: "board \<Rightarrow> nat" where
  "countMines board = length (filter (\<lambda>cell. cell = Mine) (concat board))"

text \<open>
  The claim's own count for a cell, by brute force over the whole grid: the cells
  \<open>(i, j)\<close> of the \<open>width \<times> height\<close> grid other than \<open>(x, y)\<close> that are at most one
  column and one row away and hold a mine.
\<close>

definition moore_mines :: "nat \<Rightarrow> nat \<Rightarrow> board \<Rightarrow> nat \<Rightarrow> nat \<Rightarrow> nat" where
  "moore_mines width height board x y =
     length (filter (\<lambda>(i, j). (i, j) \<noteq> (x, y)
                \<and> \<bar>int i - int x\<bar> \<le> 1 \<and> \<bar>int j - int y\<bar> \<le> 1
                \<and> read_cell board i j = Some Mine)
             (List.product [0..<width] [0..<height]))"

subsection \<open>Invariants of the generator\<close>

text \<open>
  Notions used to reason about the two loops of \<^verbatim>\<open>generateMinefield\<close>: a cell holding a mine,
  the mines of one row, a board whose rows all have the full width, and what holds of the board
  each time the placement loop tests \<^verbatim>\<open>mines < mineCount\<close>.
\<close>

definition is_mine :: "board \<Rightarrow> nat \<Rightarrow> nat \<Rightarrow> bool" where
  "is_mine board x y = (read_cell board x y = Some Mine)"

definition mines_in :: "cell list \<Rightarrow> nat" where
  "mines_in row = length (filter (\<lambda>cell. cell = Mine) row)"

definition rect :: "nat \<Rightarrow> nat \<Rightarrow> board \<Rightarrow> bool" where
  "rect width height board = (length board = height \<and> (\<forall>row \<in> set board. length row = width))"

definition placing_inv :: "nat \<Rightarrow> nat \<Rightarrow> board \<Rightarrow> nat \<Rightarrow> bool" where
  "placing_inv width height board mines =
     (length board = height \<and> countMines board = mines
      \<and> (width > 0 \<longrightarrow> (\<forall>row \<in> set board. length row = width))
      \<and> (\<forall>x y. y < height \<and> in_safe_area (width div 2) (height div 2) x y
             \<longrightarrow> \<not> is_mine board x y))"

text \<open>
  The neighbours of a cell seen from both sides: an offset \<open>d\<close> of the counting loop that
  leads from \<open>(x, y)\<close> to a mine inside the grid, and a cell \<open>c\<close> of the grid next to
  \<open>(x, y)\<close> that holds a mine; \<open>shift\<close> maps the first to the second.
\<close>

definition adj_off :: "nat \<Rightarrow> nat \<Rightarrow> board \<Rightarrow> nat \<Rightarrow> nat \<Rightarrow> int \<times> int \<Rightarrow> bool" where
  "adj_off width height board x y d =
     (0 \<le> int x + fst d \<and> int x + fst d < int width
      \<and> 0 \<le> int y + snd d \<and> int y + snd d < int height
      \<and> read_cell board (nat (int x + fst d)) (nat (int y + snd d)) = Some Mine)"

definition adj_cell :: "board \<Rightarrow> nat \<Rightarrow> nat \<Rightarrow> nat \<times> nat \<Rightarrow> bool" where
  "adj_cell board x y c =
     (c \<noteq> (x, y) \<and> \<bar>int (fst c) - int x\<bar> \<le> 1 \<and> \<bar>int (snd c) - int y\<bar> \<le> 1
      \<and> read_cell board (fst c) (snd c) = Some Mine)"

definition shift :: "nat \<Rightarrow> nat \<Rightarrow> int \<times> int \<Rightarrow> nat \<times> nat" where
  "shift x y d = (nat (int x + fst d), nat (int y + snd d))"

section \<open>The game server: sessions, verification and the leaderboard\<close>

text \<open>
  The request handlers of \<^verbatim>\<open>src/scripts/server.js\<close> and of the second server file (the
  JavaScript that follows the contract in \<^verbatim>\<open>src/scripts/MinesweeperChallenge.sol\<close>, lines
  267-615; its handlers carry the suffix \<open>2\<close> here). The database is the state: the
  collections \<^verbatim>\<open>games\<close> and \<^verbatim>\<open>leaderboard\<close> as lists in insertion order, so that
  \<^verbatim>\<open>findOne\<close> is the first match. The functions \<open>new_game\<close>, \<open>verify\<close> and
  \<open>verify2\<close> are a handler run from the request to the response with no operation of
  another request in between; requests that are in flight together are the subject of the section
  on requests in flight. SHA-256 (as a hex digest) is the parameter \<open>H\<close>.
\<close>

record game =
  g_gameId :: string
  g_playerAddress :: string
  g_contestId :: int
  g_board :: board
  g_secret :: string
  g_commitment :: string
  g_createdAt :: nat
  g_completed :: bool
  g_moves :: int
  g_timeTaken :: int
  g_completedAt :: "nat option"

record completion =
  lb_gameId :: string
  lb_playerAddress :: string
  lb_contestId :: int
  lb_moves :: int
  lb_timeTaken :: int
  lb_completedAt :: nat
  lb_boardSize :: string
  lb_mineCount :: nat

record server =
  games :: "game list"
  leaderboard :: "completion list"

datatype response =
    NewGame string string
  | Accepted string string
  | Error nat string
  | NoResponse

text \<open>Numbers in template literals and in \<^verbatim>\<open>JSON.stringify\<close>: decimal digits.\<close>

function show_nat :: "nat \<Rightarrow> string" where
  "show_nat n =
     (if n < 10 then [''0123456789'' ! n]
      else show_nat (n div 10) @ [''0123456789'' ! (n mod 10)])"
  by pat_completeness auto
termination
  by (relation "measure id") auto

declare show_nat.simps [simp del]

definition show_int :: "int \<Rightarrow> string" where
  "show_int i = (if i < 0 then ''-'' @ show_nat (nat (- i)) else show_nat (nat i))"

fun join :: "string \<Rightarrow> string list \<Rightarrow> string" where
  "join sep [] = []"
| "join sep [x] = x"
| "join sep (x # y # zs) = x @ sep @ join sep (y # zs)"

fun stringify_cell :: "cell \<Rightarrow> string" where
  "stringify_cell Mine = [CHR 0x22, CHR ''X'', CHR 0x22]"
| "stringify_cell (Num n) = show_nat n"
| "stringify_cell Hole = ''null''"

definition stringify :: "board \<Rightarrow> string" where
  "stringify board =
     ''['' @ join '','' (map (\<lambda>row. ''['' @ join '','' (map stringify_cell row) @ '']'') board) @ '']''"

text \<open>\<^verbatim>\<open>/^0x[a-fA-F0-9]{40}$/\<close>\<close>

definition hex_digit :: "char \<Rightarrow> bool" where
  "hex_digit c = (c \<in> set ''0123456789abcdefABCDEF'')"

definition valid_address :: "string \<Rightarrow> bool" where
  "valid_address a = (length a = 42 \<and> take 2 a = ''0x'' \<and> list_all hex_digit (drop 2 a))"

text \<open>
  What a new-game request draws at random: the game id, the cells for the board, the
  secret.
\<close>

record randomness =
  r_gameId :: string
  r_draws :: "(nat \<times> nat) list"
  r_secret :: string

text \<open>
  \<^verbatim>\<open>POST /api/new-game\<close>. \<open>mineCountOf\<close> is the floating-point expression
  \<^verbatim>\<open>Math.floor(width * height * (0.12 + difficulty * 0.01))\<close> as a function of the
  difficulty. A negative width makes \<^verbatim>\<open>Array(width)\<close> throw a RangeError, every
  exception is answered with status 500, and an insert whose game id is already stored
  fails on the unique index. A generator that does not return leaves the request without
  a response.
\<close>

definition new_game ::
  "(string \<Rightarrow> string) \<Rightarrow> (int \<Rightarrow> nat) \<Rightarrow> nat \<Rightarrow> randomness \<Rightarrow> string \<Rightarrow> int \<Rightarrow> server
    \<Rightarrow> response \<times> server" where
  "new_game H mineCountOf now r playerAddress contestId s =
     (if \<not> valid_address playerAddress then (Error 400 ''Invalid player address'', s)
      else
        case find (\<lambda>g. g_playerAddress g = playerAddress \<and> g_contestId g = contestId
                       \<and> g_completed g = False) (games s) of
          Some existingGame \<Rightarrow> (NewGame (g_gameId existingGame) (g_commitment existingGame), s)
        | None \<Rightarrow>
            let gameId = r_gameId r;
                difficulty = min (3 + contestId div 10) 10;
                width = 8 + difficulty;
                height = 8 + difficulty;
                mineCount = mineCountOf difficulty
            in
            if height < 0 \<or> width < 0 then (Error 500 ''Server error'', s)
            else
              case generateMinefield (nat width) (nat height) mineCount (r_draws r) of
                Unfinished \<Rightarrow> (NoResponse, s)
              | Threw err \<Rightarrow> (Error 500 ''Server error'', s)
              | Returned board \<Rightarrow>
                  let secret = r_secret r;
                      boardString = stringify board;
                      dataToHash = boardString @ secret @ playerAddress;
                      commitment = ''0x'' @ H dataToHash
                  in
                  if gameId \<in> set (map g_gameId (games s)) then (Error 500 ''Server error'', s)
                  else (NewGame gameId commitment,
                        s\<lparr> games := games s @
                          [\<lparr> g_gameId = gameId, g_playerAddress = playerAddress,
                             g_contestId = contestId, g_board = board, g_secret = secret,
                             g_commitment = commitment, g_createdAt = now, g_completed = False,
                             g_moves = 0, g_timeTaken = 0, g_completedAt = None \<rparr>] \<rparr>))"

text \<open>\<^verbatim>\<open>updateOne({ gameId }, { $set: ... })\<close>: the first game with that id is updated.\<close>

fun update_first :: "('a \<Rightarrow> bool) \<Rightarrow> ('a \<Rightarrow> 'a) \<Rightarrow> 'a list \<Rightarrow> 'a list" where
  "update_first P f [] = []"
| "update_first P f (x # xs) = (if P x then f x # xs else x # update_first P f xs)"

text \<open>
  The body of a verify request. A field that is missing, an empty string and the
  number 0 are all falsy, so a missing string is \<open>''''\<close> and a missing number \<open>0\<close>;
  \<^verbatim>\<open>boardState\<close> is an array (truthy even when empty) or missing.
\<close>

record verify_request =
  v_gameId :: string
  v_moves :: int
  v_timeTaken :: int
  v_playerAddress :: string
  v_boardState :: "bool list list option"

text \<open>
  The effect of an accepted verification, shared by both handlers: the game is marked
  completed, then the leaderboard entry is built and inserted. Building it reads
  \<^verbatim>\<open>game.board[0].length\<close>, which throws for a board without rows, after the game
  was updated; the handler answers 500.
\<close>

definition complete_game ::
  "(string \<Rightarrow> string) \<Rightarrow> nat \<Rightarrow> verify_request \<Rightarrow> game \<Rightarrow> server \<Rightarrow> response \<times> server" where
  "complete_game H now req game s =
     (let gameId = v_gameId req; moves = v_moves req; timeTaken = v_timeTaken req;
          playerAddress = v_playerAddress req;
          dataToHash = gameId @ '':'' @ show_int moves @ '':'' @ show_int timeTaken @ '':''
                       @ playerAddress @ '':'' @ g_secret game;
          proof = ''0x'' @ H dataToHash;
          s1 = s\<lparr> games := update_first (\<lambda>g. g_gameId g = gameId)
                   (\<lambda>g. g\<lparr> g_completed := True, g_moves := moves, g_timeTaken := timeTaken,
                            g_completedAt := Some now \<rparr>) (games s) \<rparr>
      in case g_board game of
           [] \<Rightarrow> (Error 500 ''Server error'', s1)
         | row0 # _ \<Rightarrow>
             (Accepted (''0x'' @ g_secret game) proof,
              s1\<lparr> leaderboard := leaderboard s1 @
                [\<lparr> lb_gameId = gameId, lb_playerAddress = playerAddress,
                   lb_contestId = g_contestId game, lb_moves = moves, lb_timeTaken = timeTaken,
                   lb_completedAt = now,
                   lb_boardSize = show_nat (length (g_board game)) @ ''x'' @ show_nat (length row0),
                   lb_mineCount = countMines (g_board game) \<rparr>] \<rparr>))"

text \<open>\<^verbatim>\<open>POST /api/verify\<close> of \<^verbatim>\<open>server.js\<close>: the board state is not read at all.\<close>

definition verify ::
  "(string \<Rightarrow> string) \<Rightarrow> nat \<Rightarrow> verify_request \<Rightarrow> server \<Rightarrow> response \<times> server" where
  "verify H now req s =
     (if v_gameId req = [] \<or> v_moves req = 0 \<or> v_timeTaken req = 0 \<or> v_playerAddress req = []
      then (Error 400 ''Missing required parameters'', s)
      else
        case find (\<lambda>g. g_gameId g = v_gameId req \<and> g_playerAddress g = v_playerAddress req)
               (games s) of
          None \<Rightarrow> (Error 404 ''Game not found'', s)
        | Some game \<Rightarrow>
            if g_completed game then (Error 400 ''Game already completed'', s)
            else complete_game H now req game s)"

text \<open>
  \<^verbatim>\<open>validateBoardSolution\<close> of the second server file (lines 584-591): its comment lists
  the three checks a real implementation would make; the body is \<^verbatim>\<open>return true\<close>.
\<close>

definition validateBoardSolution :: "board \<Rightarrow> bool list list \<Rightarrow> bool" where
  "validateBoardSolution originalBoard revealedBoard = True"

text \<open>\<^verbatim>\<open>POST /api/verify\<close> of the second server file.\<close>

definition verify2 ::
  "(string \<Rightarrow> string) \<Rightarrow> nat \<Rightarrow> verify_request \<Rightarrow> server \<Rightarrow> response \<times> server" where
  "verify2 H now req s =
     (if v_gameId req = [] \<or> v_moves req = 0 \<or> v_timeTaken req = 0 \<or> v_playerAddress req = []
         \<or> v_boardState req = None
      then (Error 400 ''Missing required parameters'', s)
      else
        case find (\<lambda>g. g_gameId g = v_gameId req \<and> g_playerAddress g = v_playerAddress req)
               (games s) of
          None \<Rightarrow> (Error 404 ''Game not found'', s)
        | Some game \<Rightarrow>
            if g_completed game then (Error 400 ''Game already completed'', s)
            else
              let isValidSolution = validateBoardSolution (g_board game) (the (v_boardState req))
              in if \<not> isValidSolution then (Error 400 ''Invalid solution'', s)
                 else complete_game H now req game s)"

text \<open>
  \<^verbatim>\<open>GET /api/leaderboard/:contestId\<close>: the entries of the contest, sorted by the database
  on \<^verbatim>\<open>{ moves: 1, timeTaken: 1 }\<close> (ascending moves, then ascending time: the
  lexicographic order on pairs), cut to \<^verbatim>\<open>limit\<close> entries. \<^verbatim>\<open>parseInt(...) || d\<close> is the
  default \<open>dflt\<close> (3 in \<^verbatim>\<open>server.js\<close>, 10 in the second file) when the limit is 0 or
  missing. The projection keeps the player, the moves, the time and the completion time.
\<close>

definition get_leaderboard ::
  "nat \<Rightarrow> int \<Rightarrow> nat \<Rightarrow> server \<Rightarrow> (string \<times> int \<times> int \<times> nat) list" where
  "get_leaderboard dflt contestId limit s =
     map (\<lambda>c. (lb_playerAddress c, lb_moves c, lb_timeTaken c, lb_completedAt c))
       (take (if limit = 0 then dflt else limit)
          (sort_key (\<lambda>c. (lb_moves c, lb_timeTaken c))
             (filter (\<lambda>c. lb_contestId c = contestId) (leaderboard s))))"

text \<open>
  The server states a sequence of requests can reach from the empty database, and the
  requests themselves.
\<close>

datatype request =
    NewGameRequest randomness string int
  | VerifyRequest verify_request
  | Verify2Request verify_request

fun handle :: "(string \<Rightarrow> string) \<Rightarrow> (int \<Rightarrow> nat) \<Rightarrow> nat \<Rightarrow> request \<Rightarrow> server \<Rightarrow> response \<times> server" where
  "handle H mineCountOf now (NewGameRequest r playerAddress contestId) s =
     new_game H mineCountOf now r playerAddress contestId s"
| "handle H mineCountOf now (VerifyRequest req) s = verify H now req s"
| "handle H mineCountOf now (Verify2Request req) s = verify2 H now req s"

inductive served :: "(string \<Rightarrow> string) \<Rightarrow> (int \<Rightarrow> nat) \<Rightarrow> server \<Rightarrow> bool"
  for H :: "string \<Rightarrow> string" and mineCountOf :: "int \<Rightarrow> nat" where
  empty_db: "served H mineCountOf \<lparr> games = [], leaderboard = [] \<rparr>"
| request: "served H mineCountOf s \<Longrightarrow> handle H mineCountOf now rq s = (resp, s')
            \<Longrightarrow> served H mineCountOf s'"

section \<open>Ranking\<close>

text \<open>
  The order of the ranking in the words of the specification: ascending moves, ties broken
  by ascending time. On pairs \<open>(moves, time)\<close> it is the lexicographic order.
\<close>

definition ranks_before :: "'a::linorder \<times> 'b::linorder \<Rightarrow> 'a \<times> 'b \<Rightarrow> bool" where
  "ranks_before a b = (fst a < fst b \<or> (fst a = fst b \<and> snd a \<le> snd b))"

text \<open>
  That order applied to the scores stored on the ledger: the players of a contest with a
  stored score (\<^verbatim>\<open>bestMoves\<close> is not 0), sorted by the stored pair
  \<open>(bestMoves, bestTime)\<close>; players with equal pairs keep the order of the player list, the
  order of entry. The stored pair is what \<^verbatim>\<open>submitGameCompletion\<close> has written: the lowest
  move count the player has submitted and the first byte of the proof of the first submission
  with that count. It is neither the elapsed time of a game nor the best of the submitted
  pairs.
\<close>

definition stored_ranking :: "contest \<Rightarrow> address list" where
  "stored_ranking c =
     sort_key (\<lambda>p. (bestMoves c p, bestTime c p)) (filter (\<lambda>p. bestMoves c p \<noteq> 0) (players c))"

text \<open>The completions of a contest on the server, and the fields a leaderboard query returns.\<close>

definition contest_completions :: "int \<Rightarrow> server \<Rightarrow> completion list" where
  "contest_completions cid s = filter (\<lambda>c. lb_contestId c = cid) (leaderboard s)"

definition projection :: "completion \<Rightarrow> string \<times> int \<times> int \<times> nat" where
  "projection c = (lb_playerAddress c, lb_moves c, lb_timeTaken c, lb_completedAt c)"

text \<open>
  For the proofs about \<^verbatim>\<open>distributePrizes\<close>: the composite score of the source
  (\<^verbatim>\<open>moves * 1000 + time\<close>), the players that are not skipped, insertion of an element
  behind every element that is not greater (one pass of the loop over \<open>j\<close>, on a list of
  any length), and the three slots of the two arrays as the first three of a list that is
  padded with the initial values.
\<close>

definition composite :: "contest \<Rightarrow> address \<Rightarrow> nat" where
  "composite c p = bestMoves c p * 1000 + bestTime c p"

definition scored :: "contest \<Rightarrow> address list \<Rightarrow> address list" where
  "scored c ps = filter (\<lambda>p. bestMoves c p \<noteq> 0) ps"

definition ins_after :: "('a \<Rightarrow> nat) \<Rightarrow> 'a \<Rightarrow> 'a list \<Rightarrow> 'a list" where
  "ins_after f x xs = takeWhile (\<lambda>y. f y \<le> f x) xs @ x # dropWhile (\<lambda>y. f y \<le> f x) xs"

definition ins_all :: "('a \<Rightarrow> nat) \<Rightarrow> 'a list \<Rightarrow> 'a list \<Rightarrow> 'a list" where
  "ins_all f xs acc = foldl (\<lambda>l x. ins_after f x l) acc xs"

definition slots :: "contest \<Rightarrow> address list \<Rightarrow> (nat \<times> address) list" where
  "slots c L = take 3 (map (\<lambda>q. (composite c q, q)) L @ replicate 3 (MAX_UINT256, 0))"

text \<open>An invariant of the reachable states: every recorded time is a byte.\<close>

definition time_inv :: "ledger \<Rightarrow> bool" where
  "time_inv s = (\<forall>cid p. bestTime (weeklyContests s cid) p \<le> 255)"

text \<open>
  How many of the transactions \<open>txs\<close> were successful calls of
  \<^verbatim>\<open>distributePrizes(cid)\<close>, given which of them succeeded.
\<close>

definition distributions :: "nat \<Rightarrow> (env \<times> call) list \<Rightarrow> bool list \<Rightarrow> nat" where
  "distributions cid txs oks =
     length (filter (\<lambda>((e, c), ok). ok \<and> c = DistributePrizes cid) (zip txs oks))"

text \<open>
  Two invariants of the reachable states. In the Solidity contract the player list of a
  contest holds exactly the addresses marked as entered, each once. In the Vyper contract
  a contest id above \<^verbatim>\<open>currentContestId\<close> has never been written.
\<close>

definition players_inv :: "ledger \<Rightarrow> bool" where
  "players_inv s = (\<forall>cid. distinct (players (weeklyContests s cid))
      \<and> (\<forall>p. p \<in> set (players (weeklyContests s cid)) \<longleftrightarrow> hasEntered (weeklyContests s cid) p))"

definition vy_fresh_inv :: "vy_ledger \<Rightarrow> bool" where
  "vy_fresh_inv s = (\<forall>cid. cid > vy_currentContestId s \<longrightarrow>
      vy_weeklyContests s cid = vy_empty_contest)"

text \<open>An environment whose outgoing transfers all succeed.\<close>

definition tx_env :: "address \<Rightarrow> nat \<Rightarrow> nat \<Rightarrow> env" where
  "tx_env sender val time =
     \<lparr> msg_sender = sender, msg_value = val, block_timestamp = time, call_ok = (\<lambda>_ _. True) \<rparr>"

text \<open>
  Example states: the deployer \<open>9\<close> has created contest 1, open from time 10 to 20, with
  entry fee 250.
\<close>

definition ex_open_contest :: contest where
  "ex_open_contest = empty_contest\<lparr> startTime := 10, endTime := 20, entryFee := 250 \<rparr>"

definition ex_open_ledger :: ledger where
  "ex_open_ledger = \<lparr> weeklyContests = (\<lambda>_. empty_contest)(1 := ex_open_contest),
     currentContestId = 1, platformFeePercentage = 500, platformFeeReceiver = 9, owner = 9 \<rparr>"

definition vy_ex_open_contest :: vy_contest where
  "vy_ex_open_contest = \<lparr> vy_startTime = 10, vy_endTime = 20, vy_entryFee = 250,
     vy_totalPrizePool = 0, vy_prizesDistributed = False, vy_playerCount = 0 \<rparr>"

definition vy_ex_open_ledger :: vy_ledger where
  "vy_ex_open_ledger = (vy_init 9)\<lparr> vy_currentContestId := 1,
     vy_weeklyContests := (\<lambda>_. vy_empty_contest)(1 := vy_ex_open_contest) \<rparr>"

text \<open>The same contest after player \<open>1\<close> has entered with commitment \<open>7\<close>.\<close>

definition ex_entered_contest :: contest where
  "ex_entered_contest = ex_open_contest\<lparr> players := [1], hasEntered := (\<lambda>_. False)(1 := True),
     commitments := (\<lambda>_. 0)(1 := 7), totalPrizePool := 250 \<rparr>"

definition ex_entered_ledger :: ledger where
  "ex_entered_ledger =
     ex_open_ledger\<lparr> weeklyContests := (\<lambda>_. empty_contest)(1 := ex_entered_contest) \<rparr>"

definition vy_ex_entered_contest :: vy_contest where
  "vy_ex_entered_contest = vy_ex_open_contest\<lparr> vy_totalPrizePool := 250, vy_playerCount := 1 \<rparr>"

definition vy_ex_entered_ledger :: vy_ledger where
  "vy_ex_entered_ledger = vy_ex_open_ledger\<lparr>
     vy_hasEntered := (\<lambda>_ _. False)(1 := (\<lambda>_. False)(1 := True)),
     vy_commitments := (\<lambda>_ _. 0)(1 := (\<lambda>_. 0)(1 := 7)),
     vy_weeklyContests := (\<lambda>_. vy_empty_contest)(1 := vy_ex_entered_contest) \<rparr>"

text \<open>Both after the owner has distributed the prizes.\<close>

definition ex_distributed_ledger :: ledger where
  "ex_distributed_ledger = ex_entered_ledger\<lparr> weeklyContests := (weeklyContests ex_entered_ledger)
     (1 := ex_entered_contest\<lparr> prizesDistributed := True \<rparr>) \<rparr>"

definition vy_ex_distributed_ledger :: vy_ledger where
  "vy_ex_distributed_ledger = vy_ex_entered_ledger\<lparr>
     vy_weeklyContests := (vy_weeklyContests vy_ex_entered_ledger)
       (1 := vy_ex_entered_contest\<lparr> vy_prizesDistributed := True \<rparr>) \<rparr>"

text \<open>
  Four transactions of the owner on that state: a distribution before the end of the
  contest, one after it, a new contest, and a second distribution.
\<close>

definition ex_txs :: "(env \<times> call) list" where
  "ex_txs = [(tx_env 9 0 15, DistributePrizes 1), (tx_env 9 0 25, DistributePrizes 1),
             (tx_env 9 0 26, CreateWeeklyContest 30 40 100), (tx_env 9 0 27, DistributePrizes 1)]"

text \<open>
  A contest with four players, three of whom submit: player 1 with 10 moves and time 50,
  player 2 with 10 moves and time 40, player 3 with 9 moves and time 99 (the first byte of
  the proof). The prize pool is 1000. The state is the result of these transactions.
\<close>

definition ex_scored_txs :: "(env \<times> call) list" where
  "ex_scored_txs =
     [(tx_env 9 0 5, CreateWeeklyContest 10 20 250),
      (tx_env 1 250 11, EnterContest 1 7), (tx_env 2 250 12, EnterContest 1 7),
      (tx_env 3 250 13, EnterContest 1 7), (tx_env 4 250 14, EnterContest 1 7),
      (tx_env 1 0 15, SubmitGameCompletion 1 10 0 (50 * 2 ^ 248)),
      (tx_env 2 0 16, SubmitGameCompletion 1 10 0 (40 * 2 ^ 248)),
      (tx_env 3 0 17, SubmitGameCompletion 1 9 0 (99 * 2 ^ 248))]"

definition ex_scored_ledger :: ledger where
  "ex_scored_ledger = fst (run ex_scored_txs (constructor 9))"

definition ex_scored_contest :: contest where
  "ex_scored_contest = \<lparr> startTime = 10, endTime = 20, entryFee = 250, totalPrizePool = 1000,
     players = [1, 2, 3, 4],
     hasEntered = (\<lambda>_. False)(1 := True, 2 := True, 3 := True, 4 := True),
     bestMoves = (\<lambda>_. 0)(1 := 10, 2 := 10, 3 := 9),
     bestTime = (\<lambda>_. 0)(1 := 50, 2 := 40, 3 := 99),
     commitments = (\<lambda>_. 0)(1 := 7, 2 := 7, 3 := 7, 4 := 7),
     prizesDistributed = False \<rparr>"

text \<open>A contest whose only player submits a completion with \<open>2 ^ 255\<close> moves.\<close>

definition ex_huge_txs :: "(env \<times> call) list" where
  "ex_huge_txs =
     [(tx_env 9 0 5, CreateWeeklyContest 10 20 250),
      (tx_env 1 250 11, EnterContest 1 7),
      (tx_env 1 0 15, SubmitGameCompletion 1 (2 ^ 255) 0 0)]"

definition ex_huge_ledger :: ledger where
  "ex_huge_ledger = fst (run ex_huge_txs (constructor 9))"

definition ex_huge_contest :: contest where
  "ex_huge_contest = \<lparr> startTime = 10, endTime = 20, entryFee = 250, totalPrizePool = 250,
     players = [1], hasEntered = (\<lambda>_. False)(1 := True),
     bestMoves = (\<lambda>_. 0)(1 := 2 ^ 255), bestTime = (\<lambda>_. 0)(1 := 0),
     commitments = (\<lambda>_. 0)(1 := 7), prizesDistributed = False \<rparr>"

text \<open>
  The contest of the four players after the owner has set the platform fee to 333 basis
  points.
\<close>

definition ex_odd_fee_ledger :: ledger where
  "ex_odd_fee_ledger = fst (run [(tx_env 9 0 18, UpdatePlatformFee 333)] ex_scored_ledger)"

text \<open>
  A contest with two players. Player 1 submits 10 moves twice, first with time 50 and then
  with time 40; player 2 submits 10 moves with time 45 (the times are the first byte of the
  proof). The state is the result of these transactions.
\<close>

definition ex_resubmit_txs :: "(env \<times> call) list" where
  "ex_resubmit_txs =
     [(tx_env 9 0 5, CreateWeeklyContest 10 20 250),
      (tx_env 1 250 11, EnterContest 1 7), (tx_env 2 250 12, EnterContest 1 7),
      (tx_env 1 0 15, SubmitGameCompletion 1 10 0 (50 * 2 ^ 248)),
      (tx_env 1 0 16, SubmitGameCompletion 1 10 0 (40 * 2 ^ 248)),
      (tx_env 2 0 17, SubmitGameCompletion 1 10 0 (45 * 2 ^ 248))]"

definition ex_resubmit_contest :: contest where
  "ex_resubmit_contest = \<lparr> startTime = 10, endTime = 20, entryFee = 250, totalPrizePool = 500,
     players = [1, 2],
     hasEntered = (\<lambda>_. False)(1 := True, 2 := True),
     bestMoves = (\<lambda>_. 0)(1 := 10, 2 := 10),
     bestTime = (\<lambda>_. 0)(1 := 50, 2 := 45),
     commitments = (\<lambda>_. 0)(1 := 7, 2 := 7),
     prizesDistributed = False \<rparr>"

definition ex_resubmit_ledger :: ledger where
  "ex_resubmit_ledger = \<lparr> weeklyContests = (\<lambda>_. empty_contest)(1 := ex_resubmit_contest),
     currentContestId = 1, platformFeePercentage = 500, platformFeeReceiver = 9, owner = 9 \<rparr>"

text \<open>The leaderboard of the specification's example, in the order of completion.\<close>

definition ex_completion :: "string \<Rightarrow> int \<Rightarrow> int \<Rightarrow> completion" where
  "ex_completion player m t = \<lparr> lb_gameId = ''game-'' @ player, lb_playerAddress = player,
     lb_contestId = 1, lb_moves = m, lb_timeTaken = t, lb_completedAt = 0,
     lb_boardSize = ''11x11'', lb_mineCount = 18 \<rparr>"

definition ex_ranked_server :: server where
  "ex_ranked_server = \<lparr> games = [],
     leaderboard = [ex_completion ''A'' 10 50, ex_completion ''B'' 10 40, ex_completion ''C'' 9 99] \<rparr>"

section \<open>Sequences of requests\<close>


text \<open>The completion records stored for a game id.\<close>

definition records_of :: "string \<Rightarrow> server \<Rightarrow> nat" where
  "records_of gid s = length (filter (\<lambda>c. lb_gameId c = gid) (leaderboard s))"

text \<open>
  An invariant of the served states: game ids are unique (the unique index), every stored
  player address is valid, and a game id has no completion record, or exactly one and a
  completed game.
\<close>

definition sessions_inv :: "server \<Rightarrow> bool" where
  "sessions_inv s =
     (distinct (map g_gameId (games s))
      \<and> (\<forall>g \<in> set (games s). valid_address (g_playerAddress g))
      \<and> (\<forall>gid. records_of gid s = 0
            \<or> (records_of gid s = 1 \<and> (\<exists>g \<in> set (games s). g_gameId g = gid \<and> g_completed g))))"

text \<open>
  An example session: the hash is a constant, the mine count is the formula in exact
  arithmetic. Contest id \<open>-70\<close> gives difficulty \<open>-4\<close>, a \<open>4 \<times> 4\<close> board and one
  mine; the first draw \<open>(1, 1)\<close> lies in the safe area, the second puts the mine at
  \<open>(0, 0)\<close>.
\<close>

definition ex_H :: "string \<Rightarrow> string" where
  "ex_H data = ''digest''"

definition ex_mineCountOf :: "int \<Rightarrow> nat" where
  "ex_mineCountOf difficulty = nat ((8 + difficulty) * (8 + difficulty) * (12 + difficulty) div 100)"

definition ex_player :: string where
  "ex_player = ''0xaaaaaaaaaaaaaaaaaaaaaaaaaaaaaaaaaaaaaaaa''"

definition ex_randomness :: randomness where
  "ex_randomness = \<lparr> r_gameId = ''g1'', r_draws = [(1, 1), (0, 0)], r_secret = ''s3cr3t'' \<rparr>"

definition ex_board :: board where
  "ex_board = [[Mine, Num 1, Num 0, Num 0],
               [Num 1, Num 1, Num 0, Num 0],
               [Num 0, Num 0, Num 0, Num 0],
               [Num 0, Num 0, Num 0, Num 0]]"

definition ex_game :: game where
  "ex_game = \<lparr> g_gameId = ''g1'', g_playerAddress = ex_player, g_contestId = - 70,
     g_board = ex_board, g_secret = ''s3cr3t'', g_commitment = ''0xdigest'', g_createdAt = 0,
     g_completed = False, g_moves = 0, g_timeTaken = 0, g_completedAt = None \<rparr>"

definition ex_session_server :: server where
  "ex_session_server = \<lparr> games = [ex_game], leaderboard = [] \<rparr>"

text \<open>
  Two verify requests for that session: one whose solution state reveals exactly the cells
  without a mine, and one that reveals the mine and nothing else.
\<close>

definition ex_win_request :: verify_request where
  "ex_win_request = \<lparr> v_gameId = ''g1'', v_moves = 3, v_timeTaken = 42,
     v_playerAddress = ex_player,
     v_boardState = Some [[False, True, True, True], [True, True, True, True],
                          [True, True, True, True], [True, True, True, True]] \<rparr>"

definition ex_bad_request :: verify_request where
  "ex_bad_request = \<lparr> v_gameId = ''g1'', v_moves = 1, v_timeTaken = 1,
     v_playerAddress = ex_player,
     v_boardState = Some [[True, False, False, False], [False, False, False, False],
                          [False, False, False, False], [False, False, False, False]] \<rparr>"

text \<open>The session after a verification with \<open>m\<close> moves and time \<open>t\<close> was accepted at \<open>now\<close>.\<close>

definition ex_completed_game :: "int \<Rightarrow> int \<Rightarrow> nat \<Rightarrow> game" where
  "ex_completed_game m t now = ex_game\<lparr> g_completed := True, g_moves := m, g_timeTaken := t,
     g_completedAt := Some now \<rparr>"

definition ex_record :: "int \<Rightarrow> int \<Rightarrow> nat \<Rightarrow> completion" where
  "ex_record m t now = \<lparr> lb_gameId = ''g1'', lb_playerAddress = ex_player, lb_contestId = - 70,
     lb_moves = m, lb_timeTaken = t, lb_completedAt = now, lb_boardSize = ''4x4'',
     lb_mineCount = 1 \<rparr>"

definition ex_completed_server :: "int \<Rightarrow> int \<Rightarrow> nat \<Rightarrow> server" where
  "ex_completed_server m t now =
     \<lparr> games = [ex_completed_game m t now], leaderboard = [ex_record m t now] \<rparr>"

section \<open>Requests in flight\<close>

text \<open>
  A handler runs until it awaits the database, and the database operations of other requests
  can take place before it continues. The verify handler of \<^verbatim>\<open>server.js\<close> awaits three
  operations: \<^verbatim>\<open>findOne\<close>, \<^verbatim>\<open>updateOne\<close> and \<^verbatim>\<open>insertOne\<close> (the handler of the
  second server file awaits the same three). A task is a verify request at one of these
  points, with what the handler holds in its local variables there: the request and its time,
  then the game document that \<^verbatim>\<open>findOne\<close> returned, then the leaderboard entry and the
  response it has built. One step of a task is the database operation it waits for together
  with the code that follows up to the next \<^verbatim>\<open>await\<close>. The code is that of \<open>verify\<close> and
  \<open>complete_game\<close>.
\<close>

datatype task =
    AtFind nat verify_request
  | AtUpdate nat verify_request game
  | AtInsert completion response
  | Responded response

definition verify_step :: "(string \<Rightarrow> string) \<Rightarrow> task \<Rightarrow> server \<Rightarrow> task \<times> server" where
  "verify_step H t s =
     (case t of
        AtFind now req \<Rightarrow>
          if v_gameId req = [] \<or> v_moves req = 0 \<or> v_timeTaken req = 0 \<or> v_playerAddress req = []
          then (Responded (Error 400 ''Missing required parameters''), s)
          else
            (case find (\<lambda>g. g_gameId g = v_gameId req \<and> g_playerAddress g = v_playerAddress req)
                    (games s) of
               None \<Rightarrow> (Responded (Error 404 ''Game not found''), s)
             | Some game \<Rightarrow>
                 if g_completed game then (Responded (Error 400 ''Game already completed''), s)
                 else (AtUpdate now req game, s))
      | AtUpdate now req game \<Rightarrow>
          (let gameId = v_gameId req; moves = v_moves req; timeTaken = v_timeTaken req;
               playerAddress = v_playerAddress req;
               dataToHash = gameId @ '':'' @ show_int moves @ '':'' @ show_int timeTaken @ '':''
                            @ playerAddress @ '':'' @ g_secret game;
               proof = ''0x'' @ H dataToHash;
               s1 = s\<lparr> games := update_first (\<lambda>g. g_gameId g = gameId)
                        (\<lambda>g. g\<lparr> g_completed := True, g_moves := moves, g_timeTaken := timeTaken,
                                 g_completedAt := Some now \<rparr>) (games s) \<rparr>
           in case g_board game of
                [] \<Rightarrow> (Responded (Error 500 ''Server error''), s1)
              | row0 # _ \<Rightarrow>
                  (AtInsert
                     \<lparr> lb_gameId = gameId, lb_playerAddress = playerAddress,
                       lb_contestId = g_contestId game, lb_moves = moves, lb_timeTaken = timeTaken,
                       lb_completedAt = now,
                       lb_boardSize = show_nat (length (g_board game)) @ ''x''
                                      @ show_nat (length row0),
                       lb_mineCount = countMines (g_board game) \<rparr>
                     (Accepted (''0x'' @ g_secret game) proof), s1))
      | AtInsert entry resp \<Rightarrow> (Responded resp, s\<lparr> leaderboard := leaderboard s @ [entry] \<rparr>)
      | Responded resp \<Rightarrow> (Responded resp, s))"

text \<open>
  The tasks in flight and a schedule: the list of the tasks' indices in the order in which
  their operations reach the database.
\<close>

fun in_flight :: "(string \<Rightarrow> string) \<Rightarrow> nat list \<Rightarrow> task list \<Rightarrow> server \<Rightarrow> task list \<times> server" where
  "in_flight H [] tasks s = (tasks, s)"
| "in_flight H (i # schedule) tasks s =
     (if i < length tasks
      then case verify_step H (tasks ! i) s of
             (t, s1) \<Rightarrow> in_flight H schedule (tasks[i := t]) s1
      else in_flight H schedule tasks s)"

text \<open>
  The example session after two verifications of it were accepted, at times 7 and 8.
\<close>

definition ex_raced_server :: server where
  "ex_raced_server = \<lparr> games = [ex_completed_game 3 42 8],
     leaderboard = [ex_record 3 42 7, ex_record 3 42 8] \<rparr>"

text \<open>
  A session of contest \<open>-110\<close>: the difficulty is \<open>-8\<close>, the board has no rows and no
  mine is asked for. The request verifies it; the last state is the one after that request.
\<close>

definition ex_empty_randomness :: randomness where
  "ex_empty_randomness = \<lparr> r_gameId = ''g0'', r_draws = [], r_secret = ''s3cr3t'' \<rparr>"

definition ex_empty_game :: game where
  "ex_empty_game = \<lparr> g_gameId = ''g0'', g_playerAddress = ex_player, g_contestId = - 110,
     g_board = [], g_secret = ''s3cr3t'', g_commitment = ''0xdigest'', g_createdAt = 0,
     g_completed = False, g_moves = 0, g_timeTaken = 0, g_completedAt = None \<rparr>"

definition ex_empty_request :: verify_request where
  "ex_empty_request = \<lparr> v_gameId = ''g0'', v_moves = 3, v_timeTaken = 42,
     v_playerAddress = ex_player, v_boardState = None \<rparr>"

definition ex_empty_completed :: server where
  "ex_empty_completed = \<lparr> games = [ex_empty_game\<lparr> g_completed := True, g_moves := 3,
     g_timeTaken := 42, g_completedAt := Some 1 \<rparr>], leaderboard = [] \<rparr>"

section \<open>Properties of the ledger\<close>

lemma proof_byte0_le: "unat (proof_byte0 p) \<le> 255"
proof -
  have "unat (proof_byte0 p) < 2 ^ LENGTH(8)" by (rule unsigned_less)
  then show ?thesis by simp
qed

lemma distributePrizes_state:
  assumes "distributePrizes e cid s = Inr (s', t)"
  shows "s' = s\<lparr> weeklyContests := (weeklyContests s)
                  (cid := (weeklyContests s cid)\<lparr> prizesDistributed := True \<rparr>) \<rparr>"
    and "msg_sender e = owner s"
    and "block_timestamp e \<ge> endTime (weeklyContests s cid)"
    and "\<not> prizesDistributed (weeklyContests s cid)"
    and "players (weeklyContests s cid) \<noteq> []"
  using assms unfolding distributePrizes_def Let_def
  by (simp_all split: if_splits sum.splits prod.splits)

lemma exec_players_inv:
  assumes "players_inv s" "exec e c s = Inr s'"
  shows "players_inv s'"
proof (cases c)
  case (EnterContest cid com)
  with assms show ?thesis
    by (auto simp: players_inv_def enterContest_def Let_def split: if_splits)
next
  case (DistributePrizes cid)
  with assms obtain t where "distributePrizes e cid s = Inr (s', t)"
    by (cases "distributePrizes e cid s") auto
  from distributePrizes_state(1)[OF this] assms(1) show ?thesis
    by (simp add: players_inv_def)
next
  case (SubmitGameCompletion cid m sec pr)
  with assms show ?thesis
    by (auto simp: players_inv_def submitGameCompletion_def Let_def split: if_splits)
next
  case (CreateWeeklyContest a b c)
  with assms show ?thesis
    by (auto simp: players_inv_def createWeeklyContest_def Let_def split: if_splits)
next
  case (UpdatePlatformFee n)
  with assms show ?thesis
    by (auto simp: players_inv_def updatePlatformFee_def split: if_splits)
next
  case (UpdateFeeReceiver a)
  with assms show ?thesis
    by (auto simp: players_inv_def updateFeeReceiver_def split: if_splits)
next
  case (TransferOwnership a)
  with assms show ?thesis
    by (auto simp: players_inv_def transferOwnership_def split: if_splits)
next
  case RenounceOwnership
  with assms show ?thesis
    by (auto simp: players_inv_def renounceOwnership_def split: if_splits)
qed

lemma reachable_players_inv: "reachable s \<Longrightarrow> players_inv s"
proof (induction rule: reachable.induct)
  case (init deployer)
  show ?case by (simp add: players_inv_def constructor_def empty_contest_def)
next
  case (step s e c s')
  then show ?case by (blast intro: exec_players_inv)
qed

lemma proof_byte0_unat: "unat (proof_byte0 p) = unat p div 2 ^ 248"
proof -
  have "unat p < 2 ^ LENGTH(256)" by (rule unsigned_less)
  then have small: "unat p div 2 ^ 248 < 2 ^ 8" by (simp add: less_mult_imp_div_less)
  have "unat (drop_bit 248 p) = drop_bit 248 (unat p)" by (rule unat_drop_bit_eq)
  also have "\<dots> = unat p div 2 ^ 248" by (rule drop_bit_eq_div)
  finally have a: "unat (drop_bit 248 p) = unat p div 2 ^ 248" .
  have "unat (proof_byte0 p) = take_bit LENGTH(8) (unat (drop_bit 248 p))"
    unfolding proof_byte0_def by (rule unsigned_ucast_eq)
  also have "\<dots> = take_bit 8 (unat p div 2 ^ 248)" by (simp add: a)
  also have "\<dots> = unat p div 2 ^ 248" using small by (rule take_bit_nat_eq_self)
  finally show ?thesis .
qed

lemma vy_distributePrizes_state:
  assumes "vy_distributePrizes e cid s = Inr (s', t)"
  shows "s' = s\<lparr> vy_weeklyContests := (vy_weeklyContests s)
                  (cid := (vy_weeklyContests s cid)\<lparr> vy_prizesDistributed := True \<rparr>) \<rparr>"
    and "msg_sender e = vy_owner s"
    and "block_timestamp e \<ge> vy_endTime (vy_weeklyContests s cid)"
    and "\<not> vy_prizesDistributed (vy_weeklyContests s cid)"
    and "vy_playerCount (vy_weeklyContests s cid) > 0"
  using assms unfolding vy_distributePrizes_def Let_def
  by (simp_all split: if_splits)

lemma exec_keeps_distributed:
  assumes "prizesDistributed (weeklyContests s cid)" "exec e c s = Inr s'"
  shows "prizesDistributed (weeklyContests s' cid)"
proof (cases c)
  case (DistributePrizes cid')
  with assms obtain t where "distributePrizes e cid' s = Inr (s', t)"
    by (cases "distributePrizes e cid' s") auto
  from distributePrizes_state(1)[OF this] assms(1) show ?thesis by simp
qed (use assms in \<open>auto simp: enterContest_def submitGameCompletion_def createWeeklyContest_def
       updatePlatformFee_def updateFeeReceiver_def transferOwnership_def renounceOwnership_def
       Let_def split: if_splits\<close>)

lemma vy_exec_fresh_inv:
  assumes "vy_fresh_inv s" "vy_exec e c s = Inr s'"
  shows "vy_fresh_inv s'"
proof (cases c)
  case (DistributePrizes cid')
  with assms obtain t where d: "vy_distributePrizes e cid' s = Inr (s', t)"
    by (cases "vy_distributePrizes e cid' s") auto
  from vy_distributePrizes_state(5)[OF d] assms(1) have "cid' \<le> vy_currentContestId s"
    by (auto simp: vy_fresh_inv_def vy_empty_contest_def not_less[symmetric])
  with vy_distributePrizes_state(1)[OF d] assms(1) show ?thesis
    by (auto simp: vy_fresh_inv_def)
next
  case (EnterContest cid' com)
  with assms show ?thesis
    by (auto simp: vy_fresh_inv_def vy_enterContest_def vy_empty_contest_def Let_def split: if_splits)
qed (use assms in \<open>auto simp: vy_fresh_inv_def vy_submitGameCompletion_def vy_createWeeklyContest_def
       vy_updatePlatformFee_def vy_updateFeeReceiver_def Let_def split: if_splits\<close>)

lemma vy_reachable_fresh_inv: "vy_reachable s \<Longrightarrow> vy_fresh_inv s"
proof (induction rule: vy_reachable.induct)
  case (vy_init deployer)
  show ?case by (simp add: vy_fresh_inv_def vy_init_def)
next
  case (vy_step s e c s')
  then show ?case by (blast intro: vy_exec_fresh_inv)
qed

lemma vy_exec_keeps_distributed:
  assumes "vy_fresh_inv s" "vy_prizesDistributed (vy_weeklyContests s cid)" "vy_exec e c s = Inr s'"
  shows "vy_prizesDistributed (vy_weeklyContests s' cid)"
proof (cases c)
  case (DistributePrizes cid')
  with assms obtain t where "vy_distributePrizes e cid' s = Inr (s', t)"
    by (cases "vy_distributePrizes e cid' s") auto
  from vy_distributePrizes_state(1)[OF this] assms(2) show ?thesis by simp
next
  case (CreateWeeklyContest a b c')
  from assms(1,2) have "cid \<le> vy_currentContestId s"
    by (auto simp: vy_fresh_inv_def vy_empty_contest_def not_less[symmetric])
  with CreateWeeklyContest assms show ?thesis
    by (auto simp: vy_createWeeklyContest_def Let_def split: if_splits)
qed (use assms in \<open>auto simp: vy_enterContest_def vy_submitGameCompletion_def
       vy_updatePlatformFee_def vy_updateFeeReceiver_def Let_def split: if_splits\<close>)

lemma distributePrizes_rejects:
  assumes "block_timestamp e < endTime (weeklyContests s cid) \<or> prizesDistributed (weeklyContests s cid)"
  shows "\<exists>err. distributePrizes e cid s = Inl err"
  using assms unfolding distributePrizes_def Let_def by auto

lemma vy_distributePrizes_rejects:
  assumes "block_timestamp e < vy_endTime (vy_weeklyContests s cid) \<or> vy_prizesDistributed (vy_weeklyContests s cid)"
  shows "\<exists>err. vy_distributePrizes e cid s = Inl err"
  using assms unfolding vy_distributePrizes_def Let_def by auto

lemma run_Cons_snd:
  "snd (run ((e, c) # txs) s) =
     (case exec e c s of Inl _ \<Rightarrow> False # snd (run txs s) | Inr s1 \<Rightarrow> True # snd (run txs s1))"
  by (simp split: sum.splits prod.splits)

lemma vy_run_Cons_snd:
  "snd (vy_run ((e, c) # txs) s) =
     (case vy_exec e c s of Inl _ \<Rightarrow> False # snd (vy_run txs s)
      | Inr s1 \<Rightarrow> True # snd (vy_run txs s1))"
  by (simp split: sum.splits prod.splits)

lemma run_after_distributed:
  "prizesDistributed (weeklyContests s cid) \<Longrightarrow> distributions cid txs (snd (run txs s)) = 0"
proof (induction txs arbitrary: s)
  case Nil
  show ?case by (simp add: distributions_def)
next
  case (Cons tx txs)
  obtain e c where tx: "tx = (e, c)" by (cases tx)
  show ?case
  proof (cases "exec e c s")
    case (Inl err)
    with Cons.IH[OF Cons.prems] tx show ?thesis
      by (simp add: distributions_def run_Cons_snd del: run.simps)
  next
    case (Inr s1)
    with Cons.prems have d1: "prizesDistributed (weeklyContests s1 cid)"
      by (rule exec_keeps_distributed)
    have "c \<noteq> DistributePrizes cid"
    proof
      assume "c = DistributePrizes cid"
      with Inr distributePrizes_rejects[of e s cid] Cons.prems show False by auto
    qed
    with Cons.IH[OF d1] Inr tx show ?thesis
      by (simp add: distributions_def run_Cons_snd vy_run_Cons_snd del: run.simps vy_run.simps)
  qed
qed

lemma run_at_most_once: "distributions cid txs (snd (run txs s)) \<le> 1"
proof (induction txs arbitrary: s)
  case Nil
  show ?case by (simp add: distributions_def)
next
  case (Cons tx txs)
  obtain e c where tx: "tx = (e, c)" by (cases tx)
  show ?case
  proof (cases "exec e c s")
    case (Inl err)
    with Cons.IH[of s] tx show ?thesis
      by (simp add: distributions_def run_Cons_snd vy_run_Cons_snd del: run.simps vy_run.simps)
  next
    case (Inr s1)
    show ?thesis
    proof (cases "c = DistributePrizes cid")
      case True
      with Inr obtain t where "distributePrizes e cid s = Inr (s1, t)"
        by (cases "distributePrizes e cid s") auto
      from distributePrizes_state(1)[OF this]
      have "prizesDistributed (weeklyContests s1 cid)" by simp
      from run_after_distributed[OF this, of txs] Inr tx True show ?thesis
        by (simp add: distributions_def run_Cons_snd vy_run_Cons_snd del: run.simps vy_run.simps)
    next
      case False
      with Cons.IH[of s1] Inr tx show ?thesis
        by (simp add: distributions_def run_Cons_snd vy_run_Cons_snd del: run.simps vy_run.simps)
    qed
  qed
qed

lemma vy_run_after_distributed:
  "vy_fresh_inv s \<Longrightarrow> vy_prizesDistributed (vy_weeklyContests s cid)
    \<Longrightarrow> distributions cid txs (snd (vy_run txs s)) = 0"
proof (induction txs arbitrary: s)
  case Nil
  show ?case by (simp add: distributions_def)
next
  case (Cons tx txs)
  obtain e c where tx: "tx = (e, c)" by (cases tx)
  show ?case
  proof (cases "vy_exec e c s")
    case (Inl err)
    with Cons.IH[OF Cons.prems] tx show ?thesis
      by (simp add: distributions_def vy_run_Cons_snd del: vy_run.simps)
  next
    case (Inr s1)
    with Cons.prems have d1: "vy_prizesDistributed (vy_weeklyContests s1 cid)"
      by (blast intro: vy_exec_keeps_distributed)
    from Inr Cons.prems have f1: "vy_fresh_inv s1" by (blast intro: vy_exec_fresh_inv)
    have "c \<noteq> DistributePrizes cid"
    proof
      assume "c = DistributePrizes cid"
      with Inr vy_distributePrizes_rejects[of e s cid] Cons.prems show False by auto
    qed
    with Cons.IH[OF f1 d1] Inr tx show ?thesis
      by (simp add: distributions_def run_Cons_snd vy_run_Cons_snd del: run.simps vy_run.simps)
  qed
qed

lemma vy_run_at_most_once:
  "vy_fresh_inv s \<Longrightarrow> distributions cid txs (snd (vy_run txs s)) \<le> 1"
proof (induction txs arbitrary: s)
  case Nil
  show ?case by (simp add: distributions_def)
next
  case (Cons tx txs)
  obtain e c where tx: "tx = (e, c)" by (cases tx)
  show ?case
  proof (cases "vy_exec e c s")
    case (Inl err)
    with Cons.IH[of s] Cons.prems tx show ?thesis
      by (simp add: distributions_def run_Cons_snd vy_run_Cons_snd del: run.simps vy_run.simps)
  next
    case (Inr s1)
    from Inr Cons.prems have f1: "vy_fresh_inv s1" by (blast intro: vy_exec_fresh_inv)
    show ?thesis
    proof (cases "c = DistributePrizes cid")
      case True
      with Inr obtain t where "vy_distributePrizes e cid s = Inr (s1, t)"
        by (cases "vy_distributePrizes e cid s") auto
      from vy_distributePrizes_state(1)[OF this]
      have "vy_prizesDistributed (vy_weeklyContests s1 cid)" by simp
      from vy_run_after_distributed[OF f1 this, of txs] Inr tx True show ?thesis
        by (simp add: distributions_def run_Cons_snd vy_run_Cons_snd del: run.simps vy_run.simps)
    next
      case False
      with Cons.IH[OF f1] Inr tx show ?thesis
        by (simp add: distributions_def run_Cons_snd vy_run_Cons_snd del: run.simps vy_run.simps)
    qed
  qed
qed

subsection \<open>Entering a contest\<close>

text \<open>
  Claim C10. A successful \<^verbatim>\<open>enterContest(contestId, commitment)\<close> adds \<^verbatim>\<open>msg.value\<close> to
  the prize pool of that contest, marks the caller as entered with the given commitment
  and appends the caller to the player list (Vyper: adds one to the player count); in a
  reachable state the caller is then in the list exactly once. Every other field of the
  contest, the entries of every other player, every other contest and the contract-wide
  settings are unchanged. The first conjunct is the Solidity contract, the second the
  Vyper one.
\<close>

theorem enterContest_frame:
  "(enterContest e cid com s = Inr s' \<longrightarrow>
      totalPrizePool (weeklyContests s' cid) = totalPrizePool (weeklyContests s cid) + msg_value e
    \<and> hasEntered (weeklyContests s' cid) (msg_sender e)
    \<and> commitments (weeklyContests s' cid) (msg_sender e) = com
    \<and> players (weeklyContests s' cid) = players (weeklyContests s cid) @ [msg_sender e]
    \<and> (reachable s \<longrightarrow> count_list (players (weeklyContests s' cid)) (msg_sender e) = 1)
    \<and> startTime (weeklyContests s' cid) = startTime (weeklyContests s cid)
    \<and> endTime (weeklyContests s' cid) = endTime (weeklyContests s cid)
    \<and> entryFee (weeklyContests s' cid) = entryFee (weeklyContests s cid)
    \<and> bestMoves (weeklyContests s' cid) = bestMoves (weeklyContests s cid)
    \<and> bestTime (weeklyContests s' cid) = bestTime (weeklyContests s cid)
    \<and> prizesDistributed (weeklyContests s' cid) = prizesDistributed (weeklyContests s cid)
    \<and> (\<forall>p. p \<noteq> msg_sender e \<longrightarrow>
          hasEntered (weeklyContests s' cid) p = hasEntered (weeklyContests s cid) p
        \<and> commitments (weeklyContests s' cid) p = commitments (weeklyContests s cid) p)
    \<and> (\<forall>c. c \<noteq> cid \<longrightarrow> weeklyContests s' c = weeklyContests s c)
    \<and> currentContestId s' = currentContestId s
    \<and> platformFeePercentage s' = platformFeePercentage s
    \<and> platformFeeReceiver s' = platformFeeReceiver s
    \<and> owner s' = owner s)
  \<and> (vy_enterContest e cid com v = Inr v' \<longrightarrow>
      vy_totalPrizePool (vy_weeklyContests v' cid)
        = vy_totalPrizePool (vy_weeklyContests v cid) + msg_value e
    \<and> vy_hasEntered v' cid (msg_sender e)
    \<and> vy_commitments v' cid (msg_sender e) = com
    \<and> vy_playerCount (vy_weeklyContests v' cid) = vy_playerCount (vy_weeklyContests v cid) + 1
    \<and> vy_startTime (vy_weeklyContests v' cid) = vy_startTime (vy_weeklyContests v cid)
    \<and> vy_endTime (vy_weeklyContests v' cid) = vy_endTime (vy_weeklyContests v cid)
    \<and> vy_entryFee (vy_weeklyContests v' cid) = vy_entryFee (vy_weeklyContests v cid)
    \<and> vy_prizesDistributed (vy_weeklyContests v' cid)
        = vy_prizesDistributed (vy_weeklyContests v cid)
    \<and> vy_bestMoves v' = vy_bestMoves v
    \<and> vy_bestTime v' = vy_bestTime v
    \<and> (\<forall>c p. (c, p) \<noteq> (cid, msg_sender e) \<longrightarrow>
          vy_hasEntered v' c p = vy_hasEntered v c p
        \<and> vy_commitments v' c p = vy_commitments v c p)
    \<and> (\<forall>c. c \<noteq> cid \<longrightarrow> vy_weeklyContests v' c = vy_weeklyContests v c)
    \<and> vy_currentContestId v' = vy_currentContestId v
    \<and> vy_platformFeePercentage v' = vy_platformFeePercentage v
    \<and> vy_platformFeeReceiver v' = vy_platformFeeReceiver v
    \<and> vy_owner v' = vy_owner v)"
proof (intro conjI impI)
  assume ok: "enterContest e cid com s = Inr s'" and r: "reachable s"
  from ok have new: "\<not> hasEntered (weeklyContests s cid) (msg_sender e)"
    and app: "players (weeklyContests s' cid) = players (weeklyContests s cid) @ [msg_sender e]"
    by (auto simp: enterContest_def Let_def split: if_splits)
  from reachable_players_inv[OF r] new
  have "msg_sender e \<notin> set (players (weeklyContests s cid))"
    by (simp add: players_inv_def)
  then show "count_list (players (weeklyContests s' cid)) (msg_sender e) = 1"
    by (simp add: app)
qed (auto simp: enterContest_def vy_enterContest_def Let_def split: if_splits)

lemma reachable_ex_open_ledger: "reachable ex_open_ledger"
proof -
  have "exec (tx_env 9 0 5) (CreateWeeklyContest 10 20 250) (constructor 9) = Inr ex_open_ledger"
    by (simp add: createWeeklyContest_def tx_env_def constructor_def ex_open_ledger_def
          ex_open_contest_def MAX_UINT256_def Let_def)
  with reachable.init[of 9] show ?thesis by (rule reachable.step)
qed

lemma vy_reachable_ex_open_ledger: "vy_reachable vy_ex_open_ledger"
proof -
  have "vy_exec (tx_env 9 0 5) (CreateWeeklyContest 10 20 250) (vy_init 9) = Inr vy_ex_open_ledger"
    by (simp add: vy_createWeeklyContest_def tx_env_def vy_init_def vy_ex_open_ledger_def
          vy_ex_open_contest_def MAX_UINT256_def Let_def)
  with vy_reachable.vy_init[of 9] show ?thesis by (rule vy_reachable.vy_step)
qed

theorem enterContest_frame_witness:
  "reachable ex_open_ledger
   \<and> (\<exists>s'. enterContest (tx_env 1 250 15) 1 7 ex_open_ledger = Inr s'
        \<and> totalPrizePool (weeklyContests s' 1) = 250
        \<and> players (weeklyContests s' 1) = [1]
        \<and> count_list (players (weeklyContests s' 1)) 1 = 1
        \<and> commitments (weeklyContests s' 1) 1 = 7
        \<and> weeklyContests s' 2 = weeklyContests ex_open_ledger 2)
   \<and> (\<exists>v'. vy_enterContest (tx_env 1 250 15) 1 7 vy_ex_open_ledger = Inr v'
        \<and> vy_totalPrizePool (vy_weeklyContests v' 1) = 250
        \<and> vy_playerCount (vy_weeklyContests v' 1) = 1
        \<and> vy_commitments v' 1 1 = 7
        \<and> vy_weeklyContests v' 2 = vy_weeklyContests vy_ex_open_ledger 2)"
proof -
  obtain s' where s': "enterContest (tx_env 1 250 15) 1 7 ex_open_ledger = Inr s'"
    by (simp add: enterContest_def tx_env_def ex_open_ledger_def ex_open_contest_def
          empty_contest_def MAX_UINT256_def Let_def)
  obtain v' where v': "vy_enterContest (tx_env 1 250 15) 1 7 vy_ex_open_ledger = Inr v'"
    by (simp add: vy_enterContest_def tx_env_def vy_ex_open_ledger_def vy_ex_open_contest_def
          vy_init_def MAX_UINT256_def Let_def)
  have pool: "totalPrizePool (weeklyContests ex_open_ledger 1) = 0"
    "players (weeklyContests ex_open_ledger 1) = []"
    "vy_totalPrizePool (vy_weeklyContests vy_ex_open_ledger 1) = 0"
    "vy_playerCount (vy_weeklyContests vy_ex_open_ledger 1) = 0"
    by (simp_all add: ex_open_ledger_def ex_open_contest_def empty_contest_def
          vy_ex_open_ledger_def vy_ex_open_contest_def)
  have env: "msg_sender (tx_env 1 250 15) = 1" "msg_value (tx_env 1 250 15) = 250"
    by (simp_all add: tx_env_def)
  from enterContest_frame[of "tx_env 1 250 15" 1 7 ex_open_ledger s' vy_ex_open_ledger v']
    s' v' reachable_ex_open_ledger pool env
  show ?thesis by simp
qed

subsection \<open>Submitting a completion\<close>

lemma sol_submit_time:
  assumes "submitGameCompletion e cid moves secret proof s = Inr s'"
    and "bestMoves (weeklyContests s cid) (msg_sender e) = 0
         \<or> moves < bestMoves (weeklyContests s cid) (msg_sender e)"
  shows "bestMoves (weeklyContests s' cid) (msg_sender e) = moves
    \<and> bestTime (weeklyContests s' cid) (msg_sender e) = unat proof div 2 ^ 248
    \<and> bestTime (weeklyContests s' cid) (msg_sender e) \<le> 255"
  using assms proof_byte0_le[of "proof"]
  by (auto simp: submitGameCompletion_def Let_def proof_byte0_unat split: if_splits)

lemma vy_submit_time:
  assumes "vy_submitGameCompletion e cid moves secret proof s = Inr s'"
    and "vy_bestMoves s cid (msg_sender e) = 0
         \<or> moves < vy_bestMoves s cid (msg_sender e)"
  shows "vy_bestMoves s' cid (msg_sender e) = moves
    \<and> vy_bestTime s' cid (msg_sender e) = unat proof div 2 ^ 248
    \<and> vy_bestTime s' cid (msg_sender e) \<le> 255"
  using assms proof_byte0_le[of "proof"]
  by (auto simp: vy_submitGameCompletion_def Let_def proof_byte0_unat split: if_splits)

text \<open>
  Claim C9. When a successful \<^verbatim>\<open>submitGameCompletion\<close> sets the caller's best move count
  for the first time or improves it, the best time recorded for the caller is the
  unsigned value of the first byte of the submitted proof, \<open>unat proof div 2 ^ 248\<close>, a
  number between 0 and 255: it is a function of the proof alone, no measured time enters.
  The first conjunct is the Solidity contract, the second the Vyper one.
\<close>

theorem submitGameCompletion_time_is_proof_byte:
  "(submitGameCompletion e cid moves secret proof s = Inr s'
      \<and> (bestMoves (weeklyContests s cid) (msg_sender e) = 0
          \<or> moves < bestMoves (weeklyContests s cid) (msg_sender e)) \<longrightarrow>
        bestMoves (weeklyContests s' cid) (msg_sender e) = moves
      \<and> bestTime (weeklyContests s' cid) (msg_sender e) = unat proof div 2 ^ 248
      \<and> bestTime (weeklyContests s' cid) (msg_sender e) \<le> 255)
  \<and> (vy_submitGameCompletion e cid moves secret proof v = Inr v'
      \<and> (vy_bestMoves v cid (msg_sender e) = 0 \<or> moves < vy_bestMoves v cid (msg_sender e)) \<longrightarrow>
        vy_bestMoves v' cid (msg_sender e) = moves
      \<and> vy_bestTime v' cid (msg_sender e) = unat proof div 2 ^ 248
      \<and> vy_bestTime v' cid (msg_sender e) \<le> 255)"
proof (intro conjI impI)
  assume a: "submitGameCompletion e cid moves secret proof s = Inr s'
      \<and> (bestMoves (weeklyContests s cid) (msg_sender e) = 0
          \<or> moves < bestMoves (weeklyContests s cid) (msg_sender e))"
  from sol_submit_time[of e cid moves secret "proof" s s'] a
  show "bestMoves (weeklyContests s' cid) (msg_sender e) = moves"
    and "bestTime (weeklyContests s' cid) (msg_sender e) = unat proof div 2 ^ 248"
    and "bestTime (weeklyContests s' cid) (msg_sender e) \<le> 255"
    by blast+
next
  assume a: "vy_submitGameCompletion e cid moves secret proof v = Inr v'
      \<and> (vy_bestMoves v cid (msg_sender e) = 0 \<or> moves < vy_bestMoves v cid (msg_sender e))"
  from vy_submit_time[of e cid moves secret "proof" v v'] a
  show "vy_bestMoves v' cid (msg_sender e) = moves"
    and "vy_bestTime v' cid (msg_sender e) = unat proof div 2 ^ 248"
    and "vy_bestTime v' cid (msg_sender e) \<le> 255"
    by blast+
qed

theorem submitGameCompletion_time_is_proof_byte_witness:
  "(\<exists>s'. submitGameCompletion (tx_env 1 0 15) 1 12 3 (42 * 2 ^ 248 + 5) ex_entered_ledger = Inr s'
      \<and> bestMoves (weeklyContests ex_entered_ledger 1) 1 = 0
      \<and> bestMoves (weeklyContests s' 1) 1 = 12
      \<and> bestTime (weeklyContests s' 1) 1 = 42)
 \<and> (\<exists>v'. vy_submitGameCompletion (tx_env 1 0 15) 1 12 3 (42 * 2 ^ 248 + 5) vy_ex_entered_ledger = Inr v'
      \<and> vy_bestMoves vy_ex_entered_ledger 1 1 = 0
      \<and> vy_bestMoves v' 1 1 = 12
      \<and> vy_bestTime v' 1 1 = 42)"
proof -
  obtain s' where s':
    "submitGameCompletion (tx_env 1 0 15) 1 12 3 (42 * 2 ^ 248 + 5) ex_entered_ledger = Inr s'"
    by (simp add: submitGameCompletion_def tx_env_def ex_entered_ledger_def ex_open_ledger_def
          ex_entered_contest_def ex_open_contest_def empty_contest_def Let_def)
  obtain v' where v':
    "vy_submitGameCompletion (tx_env 1 0 15) 1 12 3 (42 * 2 ^ 248 + 5) vy_ex_entered_ledger = Inr v'"
    by (simp add: vy_submitGameCompletion_def tx_env_def vy_ex_entered_ledger_def
          vy_ex_open_ledger_def vy_ex_entered_contest_def vy_ex_open_contest_def vy_init_def Let_def)
  have b: "bestMoves (weeklyContests ex_entered_ledger 1) 1 = 0"
      "vy_bestMoves vy_ex_entered_ledger 1 1 = 0"
    by (simp_all add: ex_entered_ledger_def ex_open_ledger_def ex_entered_contest_def
          ex_open_contest_def empty_contest_def
          vy_ex_entered_ledger_def vy_ex_open_ledger_def vy_init_def)
  have u: "unat (42 * 2 ^ 248 + 5 :: 256 word) div 2 ^ 248 = 42"
    by simp
  have env: "msg_sender (tx_env 1 0 15) = 1" by (simp add: tx_env_def)
  from submitGameCompletion_time_is_proof_byte[of "tx_env 1 0 15" 1 12 3 "42 * 2 ^ 248 + 5"
      ex_entered_ledger s' vy_ex_entered_ledger v'] s' v' b u env
  show ?thesis by simp
qed

subsection \<open>Distributing the prizes\<close>

lemma ex_entered_contest_fields:
  "players ex_entered_contest = [1]"
  "totalPrizePool ex_entered_contest = 250"
  "endTime ex_entered_contest = 20"
  "\<not> prizesDistributed ex_entered_contest"
  "bestMoves ex_entered_contest = (\<lambda>_. 0)"
  by (simp_all add: ex_entered_contest_def ex_open_contest_def empty_contest_def)

lemma ex_entered_ledger_fields:
  "weeklyContests ex_entered_ledger 1 = ex_entered_contest"
  "weeklyContests ex_entered_ledger (Suc 0) = ex_entered_contest"
  "owner ex_entered_ledger = 9" "platformFeeReceiver ex_entered_ledger = 9"
  "platformFeePercentage ex_entered_ledger = 500"
  by (simp_all add: ex_entered_ledger_def ex_open_ledger_def)

lemma send_prizes_no_winners:
  "send_prizes e (replicate 3 0) shares 0 [] 0 = Inr ([], 0)"
  by (simp add: send_prizes.simps numeral_3_eq_3)

lemma ex_distribute_early:
  "distributePrizes (tx_env 9 0 15) 1 ex_entered_ledger = Inl (Revert ''Contest not ended'')"
  by (simp add: distributePrizes_def tx_env_def ex_entered_ledger_fields
        ex_entered_contest_fields Let_def)

lemma ex_distribute_late:
  "distributePrizes (tx_env 9 0 25) 1 ex_entered_ledger =
     Inr (ex_distributed_ledger, [(9, 12), (9, 238)])"
  by (simp add: distributePrizes_def tx_env_def ex_entered_ledger_fields
        ex_entered_contest_fields Let_def MAX_UINT256_def send_prizes_no_winners
        ex_distributed_ledger_def)

lemma ex_run:
  "snd (run ex_txs ex_entered_ledger) = [False, True, True, False]"
proof -
  have 1: "exec (tx_env 9 0 15) (DistributePrizes 1) ex_entered_ledger = Inl (Revert ''Contest not ended'')"
    using ex_distribute_early by simp
  have 2: "exec (tx_env 9 0 25) (DistributePrizes 1) ex_entered_ledger = Inr ex_distributed_ledger"
    using ex_distribute_late by simp
  obtain s3 where 3: "exec (tx_env 9 0 26) (CreateWeeklyContest 30 40 100) ex_distributed_ledger = Inr s3"
    and s3: "prizesDistributed (weeklyContests s3 1)"
    by (simp add: createWeeklyContest_def tx_env_def ex_distributed_ledger_def
          ex_entered_ledger_def ex_open_ledger_def MAX_UINT256_def Let_def)
  from s3 have 4: "exec (tx_env 9 0 27) (DistributePrizes 1) s3 = Inl (Revert ''Prizes already distributed'')"
    using 3
    by (auto simp add: distributePrizes_def createWeeklyContest_def tx_env_def Let_def
         ex_distributed_ledger_def ex_entered_ledger_def ex_open_ledger_def  ex_entered_contest_fields
         split: if_splits)
  show ?thesis
    using 1 2 3 4 by (simp add: ex_txs_def)
qed

lemma vy_ex_entered_fields:
  "vy_weeklyContests vy_ex_entered_ledger 1 = vy_ex_entered_contest"
  "vy_weeklyContests vy_ex_entered_ledger (Suc 0) = vy_ex_entered_contest"
  "vy_owner vy_ex_entered_ledger = 9" "vy_platformFeeReceiver vy_ex_entered_ledger = 9"
  "vy_platformFeePercentage vy_ex_entered_ledger = 500"
  "vy_totalPrizePool vy_ex_entered_contest = 250"
  "vy_endTime vy_ex_entered_contest = 20"
  "\<not> vy_prizesDistributed vy_ex_entered_contest"
  "vy_playerCount vy_ex_entered_contest = 1"
  by (simp_all add: vy_ex_entered_ledger_def vy_ex_open_ledger_def vy_init_def
        vy_ex_entered_contest_def vy_ex_open_contest_def)

lemma vy_reachable_ex_entered_ledger: "vy_reachable vy_ex_entered_ledger"
proof -
  have "vy_exec (tx_env 1 250 15) (EnterContest 1 7) vy_ex_open_ledger = Inr vy_ex_entered_ledger"
    by (simp add: vy_enterContest_def tx_env_def vy_init_def vy_ex_open_ledger_def
          vy_ex_entered_ledger_def vy_ex_entered_contest_def vy_ex_open_contest_def
          MAX_UINT256_def Let_def)
  with vy_reachable_ex_open_ledger show ?thesis by (rule vy_reachable.vy_step)
qed

lemma vy_ex_distribute_early:
  "vy_distributePrizes (tx_env 9 0 15) 1 vy_ex_entered_ledger = Inl (Revert ''Contest not ended'')"
  by (simp add: vy_distributePrizes_def tx_env_def vy_ex_entered_fields Let_def)

lemma vy_ex_distribute_late:
  "vy_distributePrizes (tx_env 9 0 25) 1 vy_ex_entered_ledger =
     Inr (vy_ex_distributed_ledger, [(9, 12), (9, 238)])"
  by (simp add: vy_distributePrizes_def tx_env_def vy_ex_entered_fields Let_def MAX_UINT256_def
        vy_ex_distributed_ledger_def)

lemma vy_ex_create_after:
  "\<exists>s3. vy_exec (tx_env 9 0 26) (CreateWeeklyContest 30 40 100) vy_ex_distributed_ledger = Inr s3
      \<and> vy_prizesDistributed (vy_weeklyContests s3 1)"
  by (simp add: vy_createWeeklyContest_def tx_env_def vy_ex_distributed_ledger_def
        vy_ex_entered_ledger_def vy_ex_open_ledger_def vy_init_def MAX_UINT256_def Let_def)

lemma ex_create_after:
  "\<exists>s3. exec (tx_env 9 0 26) (CreateWeeklyContest 30 40 100) ex_distributed_ledger = Inr s3
      \<and> prizesDistributed (weeklyContests s3 1)"
  by (simp add: createWeeklyContest_def tx_env_def ex_distributed_ledger_def
        ex_entered_ledger_def ex_open_ledger_def MAX_UINT256_def Let_def)

lemma vy_ex_run:
  "snd (vy_run ex_txs vy_ex_entered_ledger) = [False, True, True, False]"
proof -
  have 1: "vy_exec (tx_env 9 0 15) (DistributePrizes 1) vy_ex_entered_ledger
             = Inl (Revert ''Contest not ended'')"
    using vy_ex_distribute_early by simp
  have 2: "vy_exec (tx_env 9 0 25) (DistributePrizes 1) vy_ex_entered_ledger
             = Inr vy_ex_distributed_ledger"
    using vy_ex_distribute_late by simp
  from vy_ex_create_after obtain s3
    where 3: "vy_exec (tx_env 9 0 26) (CreateWeeklyContest 30 40 100) vy_ex_distributed_ledger = Inr s3"
    and s3: "vy_prizesDistributed (vy_weeklyContests s3 1)" by blast
  from vy_distributePrizes_rejects[of _ s3 1, OF disjI2, OF s3]
  obtain err where "vy_distributePrizes (tx_env 9 0 27) 1 s3 = Inl err" by blast
  then have 4: "vy_exec (tx_env 9 0 27) (DistributePrizes 1) s3 = Inl err" by simp
  show ?thesis
    using 1 2 3 4 by (simp add: ex_txs_def)
qed

text \<open>
  Claim C8. \<^verbatim>\<open>distributePrizes\<close> is rejected before the end time of the contest and when
  the contest is already marked distributed; when it succeeds the contest is marked
  distributed; no successful transaction unsets the mark; and among the transactions of any
  sequence at most one is a successful distribution of a given contest. For the Solidity
  contract this holds from every state, for the Vyper contract from every reachable one
  (its \<^verbatim>\<open>createWeeklyContest\<close> overwrites the whole record of the new contest id, which
  in a reachable state was never used).
\<close>

theorem distributePrizes_one_way:
  "(block_timestamp e < endTime (weeklyContests s cid) \<or> prizesDistributed (weeklyContests s cid)
      \<longrightarrow> (\<exists>err. distributePrizes e cid s = Inl err))
 \<and> (distributePrizes e cid s = Inr (s', t) \<longrightarrow> prizesDistributed (weeklyContests s' cid))
 \<and> (prizesDistributed (weeklyContests s cid) \<and> exec e c s = Inr s1
      \<longrightarrow> prizesDistributed (weeklyContests s1 cid))
 \<and> distributions cid txs (snd (run txs s)) \<le> 1
 \<and> (block_timestamp e < vy_endTime (vy_weeklyContests v cid)
     \<or> vy_prizesDistributed (vy_weeklyContests v cid)
      \<longrightarrow> (\<exists>err. vy_distributePrizes e cid v = Inl err))
 \<and> (vy_distributePrizes e cid v = Inr (v', t') \<longrightarrow> vy_prizesDistributed (vy_weeklyContests v' cid))
 \<and> (vy_reachable v \<and> vy_prizesDistributed (vy_weeklyContests v cid) \<and> vy_exec e c v = Inr v1
      \<longrightarrow> vy_prizesDistributed (vy_weeklyContests v1 cid))
 \<and> (vy_reachable v \<longrightarrow> distributions cid txs (snd (vy_run txs v)) \<le> 1)"
proof (intro conjI impI)
  show "distributions cid txs (snd (run txs s)) \<le> 1" by (rule run_at_most_once)
next
  assume "distributePrizes e cid s = Inr (s', t)"
  from distributePrizes_state(1)[OF this] show "prizesDistributed (weeklyContests s' cid)" by simp
next
  assume "vy_distributePrizes e cid v = Inr (v', t')"
  from vy_distributePrizes_state(1)[OF this]
  show "vy_prizesDistributed (vy_weeklyContests v' cid)" by simp
next
  assume "vy_reachable v"
  then show "distributions cid txs (snd (vy_run txs v)) \<le> 1"
    by (intro vy_run_at_most_once vy_reachable_fresh_inv)
qed (blast intro: distributePrizes_rejects vy_distributePrizes_rejects exec_keeps_distributed
       vy_exec_keeps_distributed vy_reachable_fresh_inv)+

theorem distributePrizes_one_way_witness:
  "block_timestamp (tx_env 9 0 15) < endTime (weeklyContests ex_entered_ledger 1)
 \<and> (\<exists>err. distributePrizes (tx_env 9 0 15) 1 ex_entered_ledger = Inl err)
 \<and> distributePrizes (tx_env 9 0 25) 1 ex_entered_ledger = Inr (ex_distributed_ledger, [(9, 12), (9, 238)])
 \<and> prizesDistributed (weeklyContests ex_distributed_ledger 1)
 \<and> (\<exists>s1. exec (tx_env 9 0 26) (CreateWeeklyContest 30 40 100) ex_distributed_ledger = Inr s1
        \<and> prizesDistributed (weeklyContests s1 1))
 \<and> snd (run ex_txs ex_entered_ledger) = [False, True, True, False]
 \<and> distributions 1 ex_txs (snd (run ex_txs ex_entered_ledger)) = 1
 \<and> vy_reachable vy_ex_entered_ledger
 \<and> block_timestamp (tx_env 9 0 15) < vy_endTime (vy_weeklyContests vy_ex_entered_ledger 1)
 \<and> (\<exists>err. vy_distributePrizes (tx_env 9 0 15) 1 vy_ex_entered_ledger = Inl err)
 \<and> vy_distributePrizes (tx_env 9 0 25) 1 vy_ex_entered_ledger
      = Inr (vy_ex_distributed_ledger, [(9, 12), (9, 238)])
 \<and> vy_prizesDistributed (vy_weeklyContests vy_ex_distributed_ledger 1)
 \<and> (\<exists>v1. vy_exec (tx_env 9 0 26) (CreateWeeklyContest 30 40 100) vy_ex_distributed_ledger = Inr v1
        \<and> vy_prizesDistributed (vy_weeklyContests v1 1))
 \<and> distributions 1 ex_txs (snd (vy_run ex_txs vy_ex_entered_ledger)) = 1"
proof -
  have early: "block_timestamp (tx_env 9 0 15) < endTime (weeklyContests ex_entered_ledger 1)"
    "block_timestamp (tx_env 9 0 15) < vy_endTime (vy_weeklyContests vy_ex_entered_ledger 1)"
    by (simp_all add: tx_env_def ex_entered_ledger_fields ex_entered_contest_fields
          vy_ex_entered_fields)
  note inst = distributePrizes_one_way[of "tx_env 9 0 15" ex_entered_ledger 1 _ _ _ _ ex_txs
      vy_ex_entered_ledger]
  note inst2 = distributePrizes_one_way[of "tx_env 9 0 25" ex_entered_ledger 1
      ex_distributed_ledger "[(9, 12), (9, 238)]" _ _ ex_txs
      vy_ex_entered_ledger vy_ex_distributed_ledger "[(9, 12), (9, 238)]"]
  have d: "distributions 1 ex_txs [False, True, True, False] = 1"
    by (simp add: distributions_def ex_txs_def)
  from inst early have "\<exists>err. distributePrizes (tx_env 9 0 15) 1 ex_entered_ledger = Inl err"
    "\<exists>err. vy_distributePrizes (tx_env 9 0 15) 1 vy_ex_entered_ledger = Inl err"
    by blast+
  moreover from inst2 ex_distribute_late vy_ex_distribute_late
  have "prizesDistributed (weeklyContests ex_distributed_ledger 1)"
    "vy_prizesDistributed (vy_weeklyContests vy_ex_distributed_ledger 1)"
    by blast+
  ultimately show ?thesis
    using early ex_distribute_late vy_ex_distribute_late ex_create_after vy_ex_create_after
      ex_run vy_ex_run d vy_reachable_ex_entered_ledger
    by simp
qed

subsection \<open>The three best players\<close>

lemma place_top3_unrolled:
  "place_top3 0 x p ([a, b, c], [u, v, w]) =
     (if x < a then ([x, a, b], [p, u, v])
      else if x < b then ([a, x, b], [u, p, v])
      else if x < c then ([a, b, x], [u, v, p])
      else ([a, b, c], [u, v, w]))"
  by (simp add: place_top3.simps numeral_2_eq_2 numeral_3_eq_3)

lemma ins_after_Nil [simp]: "ins_after f x [] = [x]"
  by (simp add: ins_after_def)

lemma ins_after_Cons:
  "ins_after f x (y # ys) = (if f x < f y then x # y # ys else y # ins_after f x ys)"
  by (auto simp: ins_after_def)

lemma take_Cons_take: "take m (y # take m ys) = take m (y # ys)"
  by (cases m) simp_all

lemma take_ins_after:
  "take n (ins_after f x (take n xs)) = take n (ins_after f x xs)"
proof (induction xs arbitrary: n)
  case Nil
  show ?case by simp
next
  case (Cons y ys)
  show ?case
  proof (cases n)
    case 0
    then show ?thesis by simp
  next
    case (Suc m)
    with Cons.IH[of m] show ?thesis
      by (simp add: ins_after_Cons take_Cons_take)
  qed
qed

lemma ins_after_all_greater:
  "\<forall>y \<in> set ys. f x < f y \<Longrightarrow> ins_after f x ys = x # ys"
  by (cases ys) (simp_all add: ins_after_Cons)

lemma ins_after_append_greater:
  "\<forall>y \<in> set ys. f x < f y \<Longrightarrow> ins_after f x (xs @ ys) = ins_after f x xs @ ys"
  by (induction xs) (simp_all add: ins_after_Cons ins_after_all_greater)

lemma mset_ins_after [simp]: "mset (ins_after f x xs) = add_mset x (mset xs)"
  by (induction xs) (simp_all add: ins_after_Cons)

lemma set_ins_after [simp]: "set (ins_after f x xs) = insert x (set xs)"
  by (induction xs) (auto simp: ins_after_Cons)

lemma sorted_ins_after:
  "sorted (map f xs) \<Longrightarrow> sorted (map f (ins_after f x xs))"
  by (induction xs) (auto simp: ins_after_Cons)

lemma filter_ins_after:
  "sorted (map f xs) \<Longrightarrow>
   filter (\<lambda>y. f y = k) (ins_after f x xs) = filter (\<lambda>y. f y = k) (xs @ [x])"
proof (induction xs)
  case Nil
  show ?case by simp
next
  case (Cons a xs)
  show ?case
  proof (cases "f x < f a")
    case True
    with Cons.prems have "\<forall>y \<in> set (a # xs). f y \<noteq> f x" by auto
    then have "filter (\<lambda>y. f y = f x) (a # xs) = []"
      by (simp only: filter_empty_conv)
    with True show ?thesis
      by (cases "k = f x") (simp_all add: ins_after_Cons)
  next
    case False
    with Cons show ?thesis by (simp add: ins_after_Cons)
  qed
qed

lemma ins_all_snoc: "ins_all f (xs @ [x]) acc = ins_after f x (ins_all f xs acc)"
  by (simp add: ins_all_def)

lemma ins_all_props:
  "mset (ins_all f xs []) = mset xs \<and> sorted (map f (ins_all f xs []))
   \<and> (\<forall>k. filter (\<lambda>y. f y = k) (ins_all f xs []) = filter (\<lambda>y. f y = k) xs)"
proof (induction xs rule: rev_induct)
  case Nil
  show ?case by (simp add: ins_all_def)
next
  case (snoc x xs)
  then show ?case
    by (simp add: ins_all_snoc sorted_ins_after filter_ins_after)
qed

lemma ins_all_sort_key: "ins_all f xs [] = sort_key f xs"
proof (rule properties_for_sort_key[symmetric])
  show "mset (ins_all f xs []) = mset xs" using ins_all_props by blast
  show "sorted (map f (ins_all f xs []))" using ins_all_props by blast
  fix k assume "k \<in> set (ins_all f xs [])"
  from ins_all_props[of f xs]
  have "filter (\<lambda>y. f y = f k) (ins_all f xs []) = filter (\<lambda>y. f y = f k) xs" by blast
  then show "filter (\<lambda>x. f k = f x) (ins_all f xs []) = filter (\<lambda>x. f k = f x) xs"
    by (simp add: eq_commute)
qed

lemma sort_key_cong_order:
  fixes f :: "'a \<Rightarrow> 'k::linorder" and g :: "'a \<Rightarrow> 'l::linorder"
  assumes "\<And>x y. x \<in> set xs \<Longrightarrow> y \<in> set xs \<Longrightarrow> (f x \<le> f y) = (g x \<le> g y)"
  shows "sort_key f xs = sort_key g xs"
proof (rule properties_for_sort_key)
  show "mset (sort_key g xs) = mset xs" by simp
  have eq: "\<And>x y. x \<in> set xs \<Longrightarrow> y \<in> set xs \<Longrightarrow> (f x = f y) = (g x = g y)"
    using assms by (metis order_refl antisym)
  show "sorted (map f (sort_key g xs))"
  proof -
    have "sorted (map g (sort_key g xs))" by simp
    then have "sorted_wrt (\<lambda>x y. g x \<le> g y) (sort_key g xs)"
      by (simp add: sorted_map)
    then have "sorted_wrt (\<lambda>x y. f x \<le> f y) (sort_key g xs)"
      by (rule sorted_wrt_mono_rel[rotated]) (use assms in auto)
    then show ?thesis by (simp add: sorted_map)
  qed
  fix k assume k: "k \<in> set (sort_key g xs)"
  have "filter (\<lambda>x. f k = f x) (sort_key g xs) = filter (\<lambda>x. g k = g x) (sort_key g xs)"
    by (rule filter_cong) (use k eq in auto)
  also have "\<dots> = filter (\<lambda>x. g k = g x) xs"
    using sort_key_stable[of g "g k" xs] by (simp add: eq_commute)
  also have "\<dots> = filter (\<lambda>x. f k = f x) xs"
    by (rule filter_cong) (use k eq in auto)
  finally show "filter (\<lambda>x. f k = f x) (sort_key g xs) = filter (\<lambda>x. f k = f x) xs" .
qed

lemma length3E:
  assumes "length xs = 3"
  obtains a b c where "xs = [a, b, c]"
  using assms by (auto simp: numeral_3_eq_3 length_Suc_conv)

lemma place_top3_pairs:
  assumes "length T = 3"
  shows "place_top3 0 x p (map fst T, map snd T) =
           (map fst (take 3 (ins_after fst (x, p) T)), map snd (take 3 (ins_after fst (x, p) T)))"
proof -
  from assms obtain a b c where T: "T = [a, b, c]" by (rule length3E)
  show ?thesis
    by (cases a; cases b; cases c) (simp add: T place_top3_unrolled ins_after_Cons)
qed

lemma ins_after_map:
  "ins_after fst (f p, p) (map (\<lambda>q. (f q, q)) L) = map (\<lambda>q. (f q, q)) (ins_after f p L)"
  by (induction L) (simp_all add: ins_after_Cons)

lemma length_slots [simp]: "length (slots c L) = 3"
  by (simp add: slots_def)

lemma slots_ins:
  assumes "composite c p < MAX_UINT256"
  shows "take 3 (ins_after fst (composite c p, p) (slots c L)) = slots c (ins_after (composite c) p L)"
proof -
  let ?pair = "\<lambda>q. (composite c q, q)"
  let ?S = "replicate 3 (MAX_UINT256, 0::address)"
  have "take 3 (ins_after fst (?pair p) (slots c L))
          = take 3 (ins_after fst (?pair p) (map ?pair L @ ?S))"
    unfolding slots_def by (rule take_ins_after)
  also have "ins_after fst (?pair p) (map ?pair L @ ?S) = ins_after fst (?pair p) (map ?pair L) @ ?S"
    by (rule ins_after_append_greater) (use assms in simp)
  also have "ins_after fst (?pair p) (map ?pair L) = map ?pair (ins_after (composite c) p L)"
    by (rule ins_after_map)
  finally show ?thesis by (simp add: slots_def)
qed

lemma find_top3_slots:
  assumes "\<forall>p \<in> set ps. bestMoves c p \<noteq> 0 \<longrightarrow> composite c p < MAX_UINT256"
  shows "find_top3 c ps (map fst (slots c L), map snd (slots c L)) =
           Inr (map fst (slots c (ins_all (composite c) (scored c ps) L)),
                map snd (slots c (ins_all (composite c) (scored c ps) L)))"
  using assms
proof (induction ps arbitrary: L)
  case Nil
  show ?case by (simp add: scored_def ins_all_def)
next
  case (Cons p ps)
  show ?case
  proof (cases "bestMoves c p = 0")
    case True
    with Cons show ?thesis by (simp add: scored_def ins_all_def)
  next
    case False
    with Cons.prems have lt: "composite c p < MAX_UINT256" by simp
    have step: "place_top3 0 (composite c p) p (map fst (slots c L), map snd (slots c L))
                  = (map fst (slots c (ins_after (composite c) p L)),
                     map snd (slots c (ins_after (composite c) p L)))"
      by (simp add: place_top3_pairs slots_ins[OF lt])
    from Cons.prems have rest: "\<forall>p \<in> set ps. bestMoves c p \<noteq> 0 \<longrightarrow> composite c p < MAX_UINT256"
      by simp
    from lt have nov: "\<not> bestMoves c p * 1000 + bestTime c p > MAX_UINT256"
      by (simp add: composite_def)
    have "find_top3 c (p # ps) (map fst (slots c L), map snd (slots c L))
            = find_top3 c ps (map fst (slots c (ins_after (composite c) p L)),
                              map snd (slots c (ins_after (composite c) p L)))"
      using False nov step by (simp add: Let_def composite_def)
    also note Cons.IH[OF rest, of "ins_after (composite c) p L"]
    finally show ?thesis using False by (simp add: scored_def ins_all_def)
  qed
qed

lemma slots_Nil: "(map fst (slots c []), map snd (slots c [])) = (replicate 3 MAX_UINT256, replicate 3 0)"
  by (simp add: slots_def)

lemma snd_slots: "map snd (slots c L) = take 3 (L @ replicate 3 0)"
  by (simp add: slots_def take_map[symmetric] comp_def del: take_map)

lemma find_top3_no_panic:
  "find_top3 c ps acc = Inr r \<Longrightarrow> \<forall>p \<in> set ps. bestMoves c p \<noteq> 0 \<longrightarrow> composite c p \<le> MAX_UINT256"
  by (induction ps arbitrary: acc) (auto simp: Let_def composite_def split: if_splits)

lemma exec_time_inv:
  assumes "time_inv s" "exec e c s = Inr s'"
  shows "time_inv s'"
proof (cases c)
  case (DistributePrizes cid)
  with assms obtain t where "distributePrizes e cid s = Inr (s', t)"
    by (cases "distributePrizes e cid s") auto
  from distributePrizes_state(1)[OF this] assms(1) show ?thesis
    by (simp add: time_inv_def)
next
  case (SubmitGameCompletion cid m sec pr)
  with assms proof_byte0_le[of pr] show ?thesis
    by (auto simp: time_inv_def submitGameCompletion_def Let_def split: if_splits)
qed (use assms in \<open>auto simp: time_inv_def enterContest_def createWeeklyContest_def
       updatePlatformFee_def updateFeeReceiver_def transferOwnership_def renounceOwnership_def
       Let_def split: if_splits\<close>)

lemma reachable_time_inv: "reachable s \<Longrightarrow> time_inv s"
proof (induction rule: reachable.induct)
  case (init deployer)
  show ?case by (simp add: time_inv_def constructor_def empty_contest_def)
next
  case (step s e c s')
  then show ?case by (blast intro: exec_time_inv)
qed

lemma composite_order:
  assumes "bestTime c p \<le> 255" "bestTime c q \<le> 255"
  shows "(composite c p \<le> composite c q)
           = ((bestMoves c p, bestTime c p) \<le> (bestMoves c q, bestTime c q))"
  using assms by (auto simp: composite_def less_eq_prod_def)

lemma MAX_mod: "MAX_UINT256 mod 1000 = 935"
  by (simp add: MAX_UINT256_def)

lemma composite_neq_MAX:
  assumes "bestTime c p \<le> 255"
  shows "composite c p \<noteq> MAX_UINT256"
proof
  assume "composite c p = MAX_UINT256"
  then have "composite c p mod 1000 = 935" by (simp add: MAX_mod)
  moreover have "composite c p mod 1000 = bestTime c p"
    using assms by (simp add: composite_def)
  ultimately show False using assms by simp
qed

lemma find_top3_ranking:
  assumes t: "\<forall>p. bestTime c p \<le> 255"
    and ok: "find_top3 c (players c) (replicate 3 MAX_UINT256, replicate 3 0) = Inr (scores, winners)"
  shows "winners = take 3 (stored_ranking c @ replicate 3 0)"
proof -
  from find_top3_no_panic[OF ok] t
  have lt: "\<forall>p \<in> set (players c). bestMoves c p \<noteq> 0 \<longrightarrow> composite c p < MAX_UINT256"
    using composite_neq_MAX[of c] by (auto simp: le_less)
  from find_top3_slots[OF lt, of "[]"] ok
  have "winners = map snd (slots c (ins_all (composite c) (scored c (players c)) []))"
    by (simp add: slots_Nil)
  also have "\<dots> = take 3 (sort_key (composite c) (scored c (players c)) @ replicate 3 0)"
    by (simp add: snd_slots ins_all_sort_key)
  also have "sort_key (composite c) (scored c (players c))
               = sort_key (\<lambda>p. (bestMoves c p, bestTime c p)) (scored c (players c))"
    by (rule sort_key_cong_order) (use t in \<open>simp add: composite_order\<close>)
  finally show ?thesis by (simp add: stored_ranking_def scored_def)
qed

lemma find_top3_completes:
  assumes t: "\<forall>p. bestTime c p \<le> 255"
    and fit: "\<forall>p \<in> set (players c). bestMoves c p * 1000 + bestTime c p \<le> MAX_UINT256"
  shows "\<exists>scores. find_top3 c (players c) (replicate 3 MAX_UINT256, replicate 3 0)
           = Inr (scores, take 3 (stored_ranking c @ replicate 3 0))"
proof -
  from fit t
  have lt: "\<forall>p \<in> set (players c). bestMoves c p \<noteq> 0 \<longrightarrow> composite c p < MAX_UINT256"
    using composite_neq_MAX[of c] by (auto simp: le_less composite_def)
  from find_top3_slots[OF lt, of "[]"] obtain scores winners
    where ok: "find_top3 c (players c) (replicate 3 MAX_UINT256, replicate 3 0) = Inr (scores, winners)"
    by (simp add: slots_Nil)
  from find_top3_ranking[OF t ok] ok show ?thesis by blast
qed

lemma ranks_before_le: "ranks_before a b = (a \<le> b)"
  by (cases a; cases b) (auto simp: ranks_before_def less_eq_prod_def)

lemma get_leaderboard_alt:
  "get_leaderboard dflt cid limit s =
     map projection (take (if limit = 0 then dflt else limit)
        (sort_key (\<lambda>c. (lb_moves c, lb_timeTaken c)) (contest_completions cid s)))"
  by (simp add: get_leaderboard_def contest_completions_def projection_def[abs_def])

lemma get_leaderboard_top:
  fixes s :: server
  defines "k \<equiv> (\<lambda>dflt limit. if limit = 0 then dflt else (limit::nat))"
  shows "\<exists>best rest.
      get_leaderboard dflt cid limit s = map projection best
    \<and> mset (contest_completions cid s) = mset best + mset rest
    \<and> length best = min (k dflt limit) (length (contest_completions cid s))
    \<and> sorted_wrt (\<lambda>a b. ranks_before (lb_moves a, lb_timeTaken a) (lb_moves b, lb_timeTaken b)) best
    \<and> (\<forall>a \<in> set best. \<forall>b \<in> set rest.
          ranks_before (lb_moves a, lb_timeTaken a) (lb_moves b, lb_timeTaken b))"
proof -
  let ?key = "\<lambda>c. (lb_moves c, lb_timeTaken c)"
  let ?all = "sort_key ?key (contest_completions cid s)"
  let ?best = "take (k dflt limit) ?all" and ?rest = "drop (k dflt limit) ?all"
  have srt: "sorted_wrt (\<lambda>a b. ?key a \<le> ?key b) ?all"
    using sorted_sort_key[of ?key "contest_completions cid s"] by (simp only: sorted_map)
  have split: "?all = ?best @ ?rest" by simp
  have "sorted_wrt (\<lambda>a b. ?key a \<le> ?key b) (?best @ ?rest)" using srt by simp
  then have parts: "sorted_wrt (\<lambda>a b. ?key a \<le> ?key b) ?best"
    "\<forall>a \<in> set ?best. \<forall>b \<in> set ?rest. ?key a \<le> ?key b"
    unfolding sorted_wrt_append by blast+
  have "mset (contest_completions cid s) = mset ?all" by simp
  also have "\<dots> = mset ?best + mset ?rest"
    by (subst split) (simp only: mset_append)
  finally have m: "mset (contest_completions cid s) = mset ?best + mset ?rest" .
  have l: "length ?best = min (k dflt limit) (length (contest_completions cid s))" by simp
  have g: "get_leaderboard dflt cid limit s = map projection ?best"
    by (simp add: get_leaderboard_alt k_def)
  from g m l parts show ?thesis
    unfolding ranks_before_le by blast
qed

lemma place_top3_length:
  assumes "length sc = 3" "length ws = 3" "place_top3 0 x p (sc, ws) = (sc', ws')"
  shows "length sc' = 3 \<and> length ws' = 3"
proof -
  from assms(1) obtain a b c where sc: "sc = [a, b, c]" by (rule length3E)
  from assms(2) obtain u v w where ws: "ws = [u, v, w]" by (rule length3E)
  from assms(3) show ?thesis
    unfolding sc ws place_top3_unrolled by (auto split: if_splits)
qed

lemma find_top3_length:
  "find_top3 c ps (sc, ws) = Inr (sc', ws') \<Longrightarrow> length sc = 3 \<Longrightarrow> length ws = 3
    \<Longrightarrow> length sc' = 3 \<and> length ws' = 3"
proof (induction ps arbitrary: sc ws)
  case Nil
  then show ?case by simp
next
  case (Cons p ps)
  show ?case
  proof (cases "bestMoves c p = 0")
    case True
    with Cons show ?thesis by simp
  next
    case False
    obtain sc1 ws1 where pl:
      "place_top3 0 (bestMoves c p * 1000 + bestTime c p) p (sc, ws) = (sc1, ws1)"
      by (cases "place_top3 0 (bestMoves c p * 1000 + bestTime c p) p (sc, ws)")
    from place_top3_length[OF Cons.prems(2,3) pl] have l1: "length sc1 = 3" "length ws1 = 3"
      by simp_all
    from Cons.prems(1) False pl have "find_top3 c ps (sc1, ws1) = Inr (sc', ws')"
      by (simp add: Let_def split: if_splits)
    from Cons.IH[OF this l1] show ?thesis .
  qed
qed

lemma send_prizes_sent:
  assumes "send_prizes e ws ps 0 [] 0 = Inr (sent, tot)" "length ws = 3" "length ps = 3"
  shows "sent = filter (\<lambda>(a, v). a \<noteq> 0 \<and> v > 0) (zip ws ps) \<and> tot = sum_list (map snd sent)"
proof -
  from assms(2) obtain a b c where ws: "ws = [a, b, c]" by (rule length3E)
  from assms(3) obtain x y z where ps: "ps = [x, y, z]" by (rule length3E)
  from assms(1) show ?thesis
    unfolding ws ps by (auto simp add: send_prizes.simps split: if_splits)
qed

lemma distributePrizes_success:
  assumes "distributePrizes e cid s = Inr (s', transfers)"
  shows "\<exists>scores winners sent tot.
      find_top3 (weeklyContests s cid) (players (weeklyContests s cid))
        (replicate 3 MAX_UINT256, replicate 3 0) = Inr (scores, winners)
    \<and> send_prizes e winners
        [(totalPrizePool (weeklyContests s cid)
            - totalPrizePool (weeklyContests s cid) * platformFeePercentage s div 10000) * 50 div 100,
         (totalPrizePool (weeklyContests s cid)
            - totalPrizePool (weeklyContests s cid) * platformFeePercentage s div 10000) * 30 div 100,
         (totalPrizePool (weeklyContests s cid)
            - totalPrizePool (weeklyContests s cid) * platformFeePercentage s div 10000) * 20 div 100]
        0 [] 0 = Inr (sent, tot)
    \<and> transfers =
        (if totalPrizePool (weeklyContests s cid) * platformFeePercentage s div 10000 > 0
         then [(platformFeeReceiver s,
                totalPrizePool (weeklyContests s cid) * platformFeePercentage s div 10000)]
         else [])
        @ sent
        @ (if tot < totalPrizePool (weeklyContests s cid)
                     - totalPrizePool (weeklyContests s cid) * platformFeePercentage s div 10000
           then [(owner s, totalPrizePool (weeklyContests s cid)
                     - totalPrizePool (weeklyContests s cid) * platformFeePercentage s div 10000 - tot)]
           else [])"
  using assms unfolding distributePrizes_def Let_def
  by (auto split: if_splits sum.splits prod.splits)

lemma distributePrizes_fee_le:
  assumes "distributePrizes e cid s = Inr (s', transfers)"
  shows "totalPrizePool (weeklyContests s cid) * platformFeePercentage s div 10000
           \<le> totalPrizePool (weeklyContests s cid)"
  using assms unfolding distributePrizes_def Let_def
  by (simp split: if_splits)

lemma div_add_le_nat: "(a :: nat) div c + b div c \<le> (a + b) div c"
proof (cases "c = 0")
  case True then show ?thesis by simp
next
  case False
  have "(a div c + b div c) * c \<le> a + b"
    by (simp add: add_mult_distrib add_mono)
  then show ?thesis using False
    by (simp add: less_eq_div_iff_mult_less_eq)
qed

lemma shares_le: "(d :: nat) * 50 div 100 + d * 30 div 100 + d * 20 div 100 \<le> d"
proof -
  have "d * 50 div 100 + d * 30 div 100 + d * 20 div 100 \<le> (d * 50 + d * 30 + d * 20) div 100"
    using div_add_le_nat[of "d * 50" 100 "d * 30"] div_add_le_nat[of "d * 50 + d * 30" 100 "d * 20"]
    by linarith
  also have "\<dots> = d" by simp
  finally show ?thesis .
qed

lemma paid_sum_le:
  "sum_list (map snd (filter (\<lambda>(a, v). a \<noteq> (0 :: address) \<and> 0 < v)
      (zip [w1, w2, w3] [(d :: nat) * 50 div 100, d * 30 div 100, d * 20 div 100]))) \<le> d"
proof -
  have "sum_list (map snd (filter (\<lambda>(a, v). a \<noteq> (0 :: address) \<and> 0 < v)
      (zip [w1, w2, w3] [d * 50 div 100, d * 30 div 100, d * 20 div 100])))
      \<le> d * 50 div 100 + d * 30 div 100 + d * 20 div 100"
    by simp
  with shares_le[of d] show ?thesis by linarith
qed

text \<open>
  Claim C5. A successful \<^verbatim>\<open>distributePrizes\<close> computes the fee as
  \<open>pool * platformFeePercentage div 10000\<close>, the distributable amount as the pool less the
  fee, and the three shares as \<open>distributable * 50 div 100\<close>, \<open>* 30 div 100\<close> and
  \<open>* 20 div 100\<close>, where \<open>div\<close> is the floor division of natural numbers and nothing else
  rounds. It sends the fee (when positive) to the fee receiver, each positive share to the
  place that is taken, and what was not sent to the owner; the transfers add up to the pool.
  With a pool of 1000 and a fee of 500 basis points the fee is 50, the distributable amount
  950 and the shares 475, 285 and 190; with three winners these four transfers are all, so
  nothing remains.
\<close>

theorem prize_split_1000:
  assumes ok: "distributePrizes e cid s = Inr (s', transfers)"
  shows "\<exists>scores w1 w2 w3 fee dist shares paid.
      find_top3 (weeklyContests s cid) (players (weeklyContests s cid))
        (replicate 3 MAX_UINT256, replicate 3 0) = Inr (scores, [w1, w2, w3])
    \<and> fee = totalPrizePool (weeklyContests s cid) * platformFeePercentage s div 10000
    \<and> dist = totalPrizePool (weeklyContests s cid) - fee
    \<and> shares = [dist * 50 div 100, dist * 30 div 100, dist * 20 div 100]
    \<and> paid = filter (\<lambda>(a, v). a \<noteq> 0 \<and> 0 < v) (zip [w1, w2, w3] shares)
    \<and> transfers = (if 0 < fee then [(platformFeeReceiver s, fee)] else []) @ paid
        @ (if sum_list (map snd paid) < dist
           then [(owner s, dist - sum_list (map snd paid))] else [])
    \<and> sum_list (map snd transfers) = totalPrizePool (weeklyContests s cid)
    \<and> (totalPrizePool (weeklyContests s cid) = 1000 \<and> platformFeePercentage s = 500 \<longrightarrow>
          fee = 50 \<and> dist = 950 \<and> shares = [475, 285, 190]
        \<and> paid = filter (\<lambda>(a, v). a \<noteq> 0) [(w1, 475), (w2, 285), (w3, 190)]
        \<and> transfers = (platformFeeReceiver s, 50) # paid
            @ (if sum_list (map snd paid) < 950
               then [(owner s, 950 - sum_list (map snd paid))] else [])
        \<and> (w1 \<noteq> 0 \<and> w2 \<noteq> 0 \<and> w3 \<noteq> 0 \<longrightarrow>
             transfers = [(platformFeeReceiver s, 50), (w1, 475), (w2, 285), (w3, 190)]))"
proof -
  define fee where "fee = totalPrizePool (weeklyContests s cid) * platformFeePercentage s div 10000"
  define dist where "dist = totalPrizePool (weeklyContests s cid) - fee"
  define shares where "shares = [dist * 50 div 100, dist * 30 div 100, dist * 20 div 100]"
  from distributePrizes_success[OF ok] obtain scores winners sent tot where
    ft: "find_top3 (weeklyContests s cid) (players (weeklyContests s cid))
        (replicate 3 MAX_UINT256, replicate 3 0) = Inr (scores, winners)"
    and sp: "send_prizes e winners shares 0 [] 0 = Inr (sent, tot)"
    and tr: "transfers = (if 0 < fee then [(platformFeeReceiver s, fee)] else []) @ sent
               @ (if tot < dist then [(owner s, dist - tot)] else [])"
    unfolding fee_def dist_def shares_def by blast
  from find_top3_length[OF ft] have "length winners = 3" by simp
  then obtain w1 w2 w3 where w: "winners = [w1, w2, w3]" by (rule length3E)
  define paid where "paid = filter (\<lambda>(a, v). a \<noteq> 0 \<and> 0 < v) (zip [w1, w2, w3] shares)"
  have l3: "length shares = 3" by (simp add: shares_def)
  from send_prizes_sent[OF sp _ l3] w
  have sent: "sent = paid" and tot: "tot = sum_list (map snd paid)"
    by (simp_all add: paid_def)
  have le: "sum_list (map snd paid) \<le> dist"
    unfolding paid_def shares_def by (rule paid_sum_le)
  have fle: "fee \<le> totalPrizePool (weeklyContests s cid)"
    unfolding fee_def by (rule distributePrizes_fee_le[OF ok])
  have tr': "transfers = (if 0 < fee then [(platformFeeReceiver s, fee)] else []) @ paid
        @ (if sum_list (map snd paid) < dist
           then [(owner s, dist - sum_list (map snd paid))] else [])"
    using tr sent tot by simp
  have "sum_list (map snd transfers) = fee + dist"
    unfolding tr' using le by (cases "0 < fee"; cases "sum_list (map snd paid) < dist") simp_all
  with fle have total: "sum_list (map snd transfers) = totalPrizePool (weeklyContests s cid)"
    by (simp add: dist_def)
  have inst: "fee = 50 \<and> dist = 950 \<and> shares = [475, 285, 190]
        \<and> paid = filter (\<lambda>(a, v). a \<noteq> 0) [(w1, 475), (w2, 285), (w3, 190)]
        \<and> transfers = (platformFeeReceiver s, 50) # paid
            @ (if sum_list (map snd paid) < 950
               then [(owner s, 950 - sum_list (map snd paid))] else [])
        \<and> (w1 \<noteq> 0 \<and> w2 \<noteq> 0 \<and> w3 \<noteq> 0 \<longrightarrow>
             transfers = [(platformFeeReceiver s, 50), (w1, 475), (w2, 285), (w3, 190)])"
    if p: "totalPrizePool (weeklyContests s cid) = 1000 \<and> platformFeePercentage s = 500"
  proof -
    from p have f: "fee = 50" by (simp add: fee_def)
    with p have d: "dist = 950" by (simp add: dist_def)
    then have sh: "shares = [475, 285, 190]" by (simp add: shares_def)
    have pd: "paid = filter (\<lambda>(a, v). a \<noteq> 0) [(w1, 475), (w2, 285), (w3, 190)]"
      by (simp add: paid_def sh)
    from tr' f d have t: "transfers = (platformFeeReceiver s, 50) # paid
            @ (if sum_list (map snd paid) < 950
               then [(owner s, 950 - sum_list (map snd paid))] else [])" by simp
    have "w1 \<noteq> 0 \<and> w2 \<noteq> 0 \<and> w3 \<noteq> 0 \<longrightarrow>
             transfers = [(platformFeeReceiver s, 50), (w1, 475), (w2, 285), (w3, 190)]"
      unfolding t pd by simp
    with f d sh pd t show ?thesis by blast
  qed
  from ft w have a: "find_top3 (weeklyContests s cid) (players (weeklyContests s cid))
        (replicate 3 MAX_UINT256, replicate 3 0) = Inr (scores, [w1, w2, w3])" by simp
  show ?thesis
    apply (intro exI conjI)
           apply (rule a)
          apply (rule fee_def)
         apply (rule dist_def)
        apply (rule shares_def)
       apply (rule paid_def)
      apply (rule tr')
     apply (rule total)
    using inst by blast
qed

subsection \<open>Example contests\<close>

lemma run_Cons_fst:
  "fst (run ((e, c) # txs) s) =
     (case exec e c s of Inl _ \<Rightarrow> fst (run txs s) | Inr s1 \<Rightarrow> fst (run txs s1))"
  by (simp split: sum.splits prod.splits)

lemma reachable_run: "reachable s \<Longrightarrow> reachable (fst (run txs s))"
proof (induction txs arbitrary: s)
  case Nil
  then show ?case by simp
next
  case (Cons tx txs)
  obtain e c where tx: "tx = (e, c)" by (cases tx)
  show ?case
  proof (cases "exec e c s")
    case (Inl err)
    with Cons tx show ?thesis by (simp add: run_Cons_fst del: run.simps)
  next
    case (Inr s1)
    with Cons.prems have "reachable s1" by (blast intro: reachable.step)
    from Cons.IH[OF this] Inr tx show ?thesis by (simp add: run_Cons_fst del: run.simps)
  qed
qed

lemma ex_scored_ledger_eq:
  "ex_scored_ledger = \<lparr> weeklyContests = (\<lambda>_. empty_contest)(1 := ex_scored_contest),
     currentContestId = 1, platformFeePercentage = 500, platformFeeReceiver = 9, owner = 9 \<rparr>"
  by (simp add: ex_scored_ledger_def ex_scored_txs_def ex_scored_contest_def tx_env_def
        constructor_def empty_contest_def createWeeklyContest_def enterContest_def
        submitGameCompletion_def MAX_UINT256_def Let_def proof_byte0_unat)

lemma ex_huge_ledger_eq:
  "ex_huge_ledger = \<lparr> weeklyContests = (\<lambda>_. empty_contest)(1 := ex_huge_contest),
     currentContestId = 1, platformFeePercentage = 500, platformFeeReceiver = 9, owner = 9 \<rparr>"
  by (simp add: ex_huge_ledger_def ex_huge_txs_def ex_huge_contest_def tx_env_def
        constructor_def empty_contest_def createWeeklyContest_def enterContest_def
        submitGameCompletion_def MAX_UINT256_def Let_def proof_byte0_unat)

lemma reachable_examples: "reachable ex_scored_ledger" "reachable ex_huge_ledger"
  unfolding ex_scored_ledger_def ex_huge_ledger_def
  by (rule reachable_run, rule reachable.init)+

lemma ex_scored_fields:
  "weeklyContests ex_scored_ledger 1 = ex_scored_contest"
  "weeklyContests ex_scored_ledger (Suc 0) = ex_scored_contest"
  "owner ex_scored_ledger = 9" "platformFeeReceiver ex_scored_ledger = 9"
  "platformFeePercentage ex_scored_ledger = 500"
  "players ex_scored_contest = [1, 2, 3, 4]"
  "totalPrizePool ex_scored_contest = 1000"
  "endTime ex_scored_contest = 20"
  "\<not> prizesDistributed ex_scored_contest"
  by (simp_all add: ex_scored_ledger_eq) (simp_all add: ex_scored_contest_def)

lemma ex_scored_find_top3:
  "find_top3 ex_scored_contest [1, 2, 3, 4] (replicate 3 MAX_UINT256, replicate 3 0)
     = Inr ([9099, 10040, 10050], [3, 2, 1])"
  by (simp add: ex_scored_contest_def numeral_3_eq_3 place_top3_unrolled MAX_UINT256_def Let_def)

lemma ex_scored_ranking: "stored_ranking ex_scored_contest = [3, 2, 1]"
  by (simp add: stored_ranking_def ex_scored_contest_def less_eq_prod_def)

lemma ex_scored_distribute:
  "\<exists>s'. distributePrizes (tx_env 9 0 25) 1 ex_scored_ledger
           = Inr (s', [(9, 50), (3, 475), (2, 285), (1, 190)])"
proof -
  have ft: "find_top3 (weeklyContests ex_scored_ledger 1)
              (players (weeklyContests ex_scored_ledger 1))
              (replicate 3 MAX_UINT256, replicate 3 0) = Inr ([9099, 10040, 10050], [3, 2, 1])"
    using ex_scored_find_top3 by (simp add: ex_scored_fields)
  show ?thesis
    unfolding distributePrizes_def Let_def ft
    by (simp add: tx_env_def ex_scored_fields MAX_UINT256_def send_prizes.simps)
qed

lemma ex_odd_fee_ledger_eq:
  "ex_odd_fee_ledger = ex_scored_ledger\<lparr> platformFeePercentage := 333 \<rparr>"
  by (simp add: ex_odd_fee_ledger_def updatePlatformFee_def tx_env_def ex_scored_fields)

lemma reachable_odd_fee: "reachable ex_odd_fee_ledger"
  unfolding ex_odd_fee_ledger_def by (rule reachable_run, rule reachable_examples(1))

lemma ex_odd_fee_distribute:
  "\<exists>s'. distributePrizes (tx_env 9 0 25) 1 ex_odd_fee_ledger
           = Inr (s', [(9, 33), (3, 483), (2, 290), (1, 193), (9, 1)])"
proof -
  have ft: "find_top3 (weeklyContests (ex_scored_ledger\<lparr> platformFeePercentage := 333 \<rparr>) 1)
              (players (weeklyContests (ex_scored_ledger\<lparr> platformFeePercentage := 333 \<rparr>) 1))
              (replicate 3 MAX_UINT256, replicate 3 0) = Inr ([9099, 10040, 10050], [3, 2, 1])"
    using ex_scored_find_top3 by (simp add: ex_scored_fields)
  show ?thesis
    unfolding ex_odd_fee_ledger_eq distributePrizes_def Let_def ft
    by (simp add: tx_env_def ex_scored_fields MAX_UINT256_def send_prizes.simps)
qed

theorem prize_split_1000_witness:
  "reachable ex_scored_ledger
 \<and> totalPrizePool (weeklyContests ex_scored_ledger 1) = 1000
 \<and> platformFeePercentage ex_scored_ledger = 500
 \<and> (\<exists>s'. distributePrizes (tx_env 9 0 25) 1 ex_scored_ledger
             = Inr (s', [(9, 50), (3, 475), (2, 285), (1, 190)]))
 \<and> sum_list (map snd [(9 :: address, 50 :: nat), (3, 475), (2, 285), (1, 190)]) = 1000
 \<and> reachable ex_odd_fee_ledger
 \<and> totalPrizePool (weeklyContests ex_odd_fee_ledger 1) = 1000
 \<and> platformFeePercentage ex_odd_fee_ledger = 333
 \<and> (\<exists>s'. distributePrizes (tx_env 9 0 25) 1 ex_odd_fee_ledger
             = Inr (s', [(9, 33), (3, 483), (2, 290), (1, 193), (9, 1)]))
 \<and> sum_list (map snd [(9 :: address, 33 :: nat), (3, 483), (2, 290), (1, 193), (9, 1)]) = 1000"
proof -
  from ex_scored_distribute obtain s' where
    d: "distributePrizes (tx_env 9 0 25) 1 ex_scored_ledger
          = Inr (s', [(9, 50), (3, 475), (2, 285), (1, 190)])" by blast
  from ex_odd_fee_distribute obtain s'' where
    d': "distributePrizes (tx_env 9 0 25) 1 ex_odd_fee_ledger
          = Inr (s'', [(9, 33), (3, 483), (2, 290), (1, 193), (9, 1)])" by blast
  have pool: "totalPrizePool (weeklyContests ex_scored_ledger 1) = 1000"
    and pct: "platformFeePercentage ex_scored_ledger = 500"
    by (simp_all add: ex_scored_fields)
  have pool': "totalPrizePool (weeklyContests ex_odd_fee_ledger 1) = 1000"
    and pct': "platformFeePercentage ex_odd_fee_ledger = 333"
    by (simp_all add: ex_odd_fee_ledger_eq ex_scored_fields)
  from prize_split_1000[OF d]
  have "sum_list (map snd [(9 :: address, 50 :: nat), (3, 475), (2, 285), (1, 190)])
          = totalPrizePool (weeklyContests ex_scored_ledger 1)"
    by blast
  with pool
  have 1: "sum_list (map snd [(9 :: address, 50 :: nat), (3, 475), (2, 285), (1, 190)]) = 1000"
    by (simp only:)
  from prize_split_1000[OF d']
  have "sum_list (map snd [(9 :: address, 33 :: nat), (3, 483), (2, 290), (1, 193), (9, 1)])
          = totalPrizePool (weeklyContests ex_odd_fee_ledger 1)"
    by blast
  with pool'
  have 2: "sum_list (map snd [(9 :: address, 33 :: nat), (3, 483), (2, 290), (1, 193), (9, 1)]) = 1000"
    by (simp only:)
  from d d' pool pct pool' pct' 1 2 reachable_examples(1) reachable_odd_fee show ?thesis by blast
qed

lemma ex_huge_fields:
  "weeklyContests ex_huge_ledger 1 = ex_huge_contest"
  "weeklyContests ex_huge_ledger (Suc 0) = ex_huge_contest"
  "owner ex_huge_ledger = 9" "platformFeeReceiver ex_huge_ledger = 9"
  "platformFeePercentage ex_huge_ledger = 500"
  "players ex_huge_contest = [1]"
  "totalPrizePool ex_huge_contest = 250"
  "endTime ex_huge_contest = 20"
  "\<not> prizesDistributed ex_huge_contest"
  by (simp_all add: ex_huge_ledger_eq) (simp_all add: ex_huge_contest_def)

lemma ex_huge_find_top3:
  "find_top3 ex_huge_contest [1] (replicate 3 MAX_UINT256, replicate 3 0) = Inl Panic"
  by (simp add: ex_huge_contest_def MAX_UINT256_def Let_def)

lemma ex_ranked_leaderboard:
  "get_leaderboard 3 1 0 ex_ranked_server = [(''C'', 9, 99, 0), (''B'', 10, 40, 0), (''A'', 10, 50, 0)]"
  by (simp add: get_leaderboard_def ex_ranked_server_def ex_completion_def less_eq_prod_def)

text \<open>
  Outside the ranking: a stored move count whose composite score \<^verbatim>\<open>moves * 1000 + time\<close>
  does not fit into a \<^verbatim>\<open>uint256\<close> makes the selection loop revert, and with it every
  call of \<^verbatim>\<open>distributePrizes\<close> for that contest.
\<close>

lemma ex_huge_distribute:
  "reachable ex_huge_ledger
 \<and> find_top3 (weeklyContests ex_huge_ledger 1) (players (weeklyContests ex_huge_ledger 1))
      (replicate 3 MAX_UINT256, replicate 3 0) = Inl Panic
 \<and> (\<forall>e. \<exists>err. distributePrizes e 1 ex_huge_ledger = Inl err)"
proof -
  have ft: "find_top3 (weeklyContests ex_huge_ledger 1) (players (weeklyContests ex_huge_ledger 1))
      (replicate 3 MAX_UINT256, replicate 3 0) = Inl Panic"
    using ex_huge_find_top3 by (simp add: ex_huge_fields)
  have "\<exists>err. distributePrizes e 1 ex_huge_ledger = Inl err" for e
    unfolding distributePrizes_def Let_def ft by simp
  with reachable_examples(2) ft show ?thesis by blast
qed

lemma ex_resubmit_run:
  "run ex_resubmit_txs (constructor 9) = (ex_resubmit_ledger, [True, True, True, True, True, True])"
  by (simp add: ex_resubmit_ledger_def ex_resubmit_txs_def ex_resubmit_contest_def tx_env_def
        constructor_def empty_contest_def createWeeklyContest_def enterContest_def
        submitGameCompletion_def MAX_UINT256_def Let_def proof_byte0_unat)

lemma reachable_resubmit: "reachable ex_resubmit_ledger"
proof -
  have "reachable (fst (run ex_resubmit_txs (constructor 9)))"
    by (rule reachable_run, rule reachable.init)
  then show ?thesis by (simp only: ex_resubmit_run fst_conv)
qed

lemma ex_resubmit_fields:
  "weeklyContests ex_resubmit_ledger 1 = ex_resubmit_contest"
  "weeklyContests ex_resubmit_ledger (Suc 0) = ex_resubmit_contest"
  "players ex_resubmit_contest = [1, 2]"
  "bestMoves ex_resubmit_contest 1 = 10" "bestTime ex_resubmit_contest 1 = 50"
  "bestMoves ex_resubmit_contest 2 = 10" "bestTime ex_resubmit_contest 2 = 45"
  by (simp_all add: ex_resubmit_ledger_def) (simp_all add: ex_resubmit_contest_def)

lemma ex_resubmit_find_top3:
  "find_top3 ex_resubmit_contest [1, 2] (replicate 3 MAX_UINT256, replicate 3 0)
     = Inr ([10045, 10050, MAX_UINT256], [2, 1, 0])"
  by (simp add: ex_resubmit_contest_def numeral_3_eq_3 place_top3_unrolled MAX_UINT256_def Let_def)

text \<open>
  Claim C4 does not hold for every set of submitted scores. Player 1 submits 10 moves with
  time 50 and then 10 moves with time 40, player 2 submits 10 moves with time 45, and every
  transaction succeeds (the fifth and the sixth are the submissions with times 40 and 45).
  The submitted score \<open>(10, 40)\<close> of player 1 ranks before the score
  \<open>(10, 45)\<close> of player 2, but \<^verbatim>\<open>submitGameCompletion\<close> stores a score only when the move
  count is lower than the stored one: the ledger keeps \<open>(10, 50)\<close> for player 1, and the
  selection puts player 2 first.
\<close>

theorem onchain_selection_counterexample:
  "run ex_resubmit_txs (constructor 9) = (ex_resubmit_ledger, [True, True, True, True, True, True])
 \<and> reachable ex_resubmit_ledger
 \<and> ex_resubmit_txs ! 4 = (tx_env 1 0 16, SubmitGameCompletion 1 10 0 (40 * 2 ^ 248))
 \<and> unat (proof_byte0 (40 * 2 ^ 248)) = 40
 \<and> ex_resubmit_txs ! 5 = (tx_env 2 0 17, SubmitGameCompletion 1 10 0 (45 * 2 ^ 248))
 \<and> unat (proof_byte0 (45 * 2 ^ 248)) = 45
 \<and> ranks_before (10 :: nat, 40 :: nat) (10, 45)
 \<and> \<not> ranks_before (10 :: nat, 45 :: nat) (10, 40)
 \<and> bestMoves (weeklyContests ex_resubmit_ledger 1) 1 = 10
 \<and> bestTime (weeklyContests ex_resubmit_ledger 1) 1 = 50
 \<and> bestMoves (weeklyContests ex_resubmit_ledger 1) 2 = 10
 \<and> bestTime (weeklyContests ex_resubmit_ledger 1) 2 = 45
 \<and> find_top3 (weeklyContests ex_resubmit_ledger 1) (players (weeklyContests ex_resubmit_ledger 1))
      (replicate 3 MAX_UINT256, replicate 3 0) = Inr ([10045, 10050, MAX_UINT256], [2, 1, 0])"
proof -
  have r: "ranks_before (10 :: nat, 40 :: nat) (10, 45)" "\<not> ranks_before (10 :: nat, 45 :: nat) (10, 40)"
    by (simp_all add: ranks_before_def)
  have ft: "find_top3 (weeklyContests ex_resubmit_ledger 1)
      (players (weeklyContests ex_resubmit_ledger 1))
      (replicate 3 MAX_UINT256, replicate 3 0) = Inr ([10045, 10050, MAX_UINT256], [2, 1, 0])"
    using ex_resubmit_find_top3 by (simp add: ex_resubmit_fields)
  have t: "ex_resubmit_txs ! 4 = (tx_env 1 0 16, SubmitGameCompletion 1 10 0 (40 * 2 ^ 248))"
    "ex_resubmit_txs ! 5 = (tx_env 2 0 17, SubmitGameCompletion 1 10 0 (45 * 2 ^ 248))"
    by (simp_all add: ex_resubmit_txs_def)
  have b: "unat (proof_byte0 (40 * 2 ^ 248)) = 40" "unat (proof_byte0 (45 * 2 ^ 248)) = 45"
    by (simp_all add: proof_byte0_unat)
  from ex_resubmit_run reachable_resubmit t b r ft show ?thesis
    by (simp add: ex_resubmit_fields)
qed

text \<open>
  Claim C4, amended. The leaderboard query returns the completions of the contest that
  rank best, in ascending order of moves with ties broken by ascending time, and the
  example \<open>[(A,10,50), (B,10,40), (C,9,99)]\<close> is returned as \<open>[C, B, A]\<close>. On the ledger,
  \<open>stored_ranking\<close> is the list of the players with a stored score in that same order of
  their stored pairs \<open>(bestMoves, bestTime)\<close>, players with equal pairs in the order of
  entry. In every reachable state, whenever the selection loop of \<^verbatim>\<open>distributePrizes\<close>
  completes, its \<^verbatim>\<open>winners\<close> array holds the first three of that ranking, padded with
  \<^verbatim>\<open>address(0)\<close>; and it completes whenever each stored composite score
  \<^verbatim>\<open>moves * 1000 + time\<close> fits into a \<^verbatim>\<open>uint256\<close>.
\<close>

theorem ranking_order:
  "(\<exists>best rest.
      get_leaderboard dflt cid limit srv = map projection best
    \<and> mset (contest_completions cid srv) = mset best + mset rest
    \<and> length best = min (if limit = 0 then dflt else limit) (length (contest_completions cid srv))
    \<and> sorted_wrt (\<lambda>a b. ranks_before (lb_moves a, lb_timeTaken a) (lb_moves b, lb_timeTaken b)) best
    \<and> (\<forall>a \<in> set best. \<forall>b \<in> set rest.
          ranks_before (lb_moves a, lb_timeTaken a) (lb_moves b, lb_timeTaken b)))
 \<and> get_leaderboard 3 1 0 ex_ranked_server
      = [(''C'', 9, 99, 0), (''B'', 10, 40, 0), (''A'', 10, 50, 0)]
 \<and> sorted_wrt (\<lambda>p q. ranks_before (bestMoves c p, bestTime c p) (bestMoves c q, bestTime c q))
      (stored_ranking c)
 \<and> mset (stored_ranking c) = mset (filter (\<lambda>p. bestMoves c p \<noteq> 0) (players c))
 \<and> (\<forall>m t. filter (\<lambda>p. (bestMoves c p, bestTime c p) = (m, t)) (stored_ranking c)
          = filter (\<lambda>p. (bestMoves c p, bestTime c p) = (m, t))
              (filter (\<lambda>p. bestMoves c p \<noteq> 0) (players c)))
 \<and> (reachable s
      \<and> find_top3 (weeklyContests s k) (players (weeklyContests s k))
           (replicate 3 MAX_UINT256, replicate 3 0) = Inr (scores, winners)
      \<longrightarrow> winners = take 3 (stored_ranking (weeklyContests s k) @ replicate 3 0))
 \<and> (reachable s
      \<and> (\<forall>p \<in> set (players (weeklyContests s k)).
            bestMoves (weeklyContests s k) p * 1000 + bestTime (weeklyContests s k) p \<le> MAX_UINT256)
      \<longrightarrow> (\<exists>scores. find_top3 (weeklyContests s k) (players (weeklyContests s k))
                       (replicate 3 MAX_UINT256, replicate 3 0)
                     = Inr (scores, take 3 (stored_ranking (weeklyContests s k) @ replicate 3 0))))
 \<and> find_top3 ex_scored_contest (players ex_scored_contest)
      (replicate 3 MAX_UINT256, replicate 3 0) = Inr ([9099, 10040, 10050], [3, 2, 1])"
proof (intro conjI impI)
  show "\<exists>best rest.
      get_leaderboard dflt cid limit srv = map projection best
    \<and> mset (contest_completions cid srv) = mset best + mset rest
    \<and> length best = min (if limit = 0 then dflt else limit) (length (contest_completions cid srv))
    \<and> sorted_wrt (\<lambda>a b. ranks_before (lb_moves a, lb_timeTaken a) (lb_moves b, lb_timeTaken b)) best
    \<and> (\<forall>a \<in> set best. \<forall>b \<in> set rest.
          ranks_before (lb_moves a, lb_timeTaken a) (lb_moves b, lb_timeTaken b))"
    by (rule get_leaderboard_top)
next
  show "get_leaderboard 3 1 0 ex_ranked_server
      = [(''C'', 9, 99, 0), (''B'', 10, 40, 0), (''A'', 10, 50, 0)]"
    by (rule ex_ranked_leaderboard)
next
  have "sorted (map (\<lambda>p. (bestMoves c p, bestTime c p)) (stored_ranking c))"
    unfolding stored_ranking_def by (rule sorted_sort_key)
  then show "sorted_wrt (\<lambda>p q. ranks_before (bestMoves c p, bestTime c p)
               (bestMoves c q, bestTime c q)) (stored_ranking c)"
    by (simp only: sorted_map ranks_before_le)
next
  show "mset (stored_ranking c) = mset (filter (\<lambda>p. bestMoves c p \<noteq> 0) (players c))"
    by (simp add: stored_ranking_def)
next
  show "\<forall>m t. filter (\<lambda>p. (bestMoves c p, bestTime c p) = (m, t)) (stored_ranking c)
          = filter (\<lambda>p. (bestMoves c p, bestTime c p) = (m, t))
              (filter (\<lambda>p. bestMoves c p \<noteq> 0) (players c))"
    unfolding stored_ranking_def by (intro allI sort_key_stable)
next
  assume a: "reachable s
      \<and> find_top3 (weeklyContests s k) (players (weeklyContests s k))
           (replicate 3 MAX_UINT256, replicate 3 0) = Inr (scores, winners)"
  then have "\<forall>p. bestTime (weeklyContests s k) p \<le> 255"
    using reachable_time_inv[of s] by (simp add: time_inv_def)
  from find_top3_ranking[OF this] a
  show "winners = take 3 (stored_ranking (weeklyContests s k) @ replicate 3 0)" by blast
next
  assume a: "reachable s
      \<and> (\<forall>p \<in> set (players (weeklyContests s k)).
            bestMoves (weeklyContests s k) p * 1000 + bestTime (weeklyContests s k) p \<le> MAX_UINT256)"
  then have "\<forall>p. bestTime (weeklyContests s k) p \<le> 255"
    using reachable_time_inv[of s] by (simp add: time_inv_def)
  from find_top3_completes[OF this] a
  show "\<exists>scores. find_top3 (weeklyContests s k) (players (weeklyContests s k))
                       (replicate 3 MAX_UINT256, replicate 3 0)
                     = Inr (scores, take 3 (stored_ranking (weeklyContests s k) @ replicate 3 0))"
    by blast
next
  show "find_top3 ex_scored_contest (players ex_scored_contest)
      (replicate 3 MAX_UINT256, replicate 3 0) = Inr ([9099, 10040, 10050], [3, 2, 1])"
    using ex_scored_find_top3 by (simp add: ex_scored_fields)
qed

theorem ranking_order_witness:
  "reachable ex_scored_ledger
 \<and> contest_completions 1 ex_ranked_server
      = [ex_completion ''A'' 10 50, ex_completion ''B'' 10 40, ex_completion ''C'' 9 99]
 \<and> get_leaderboard 3 1 0 ex_ranked_server
      = [(''C'', 9, 99, 0), (''B'', 10, 40, 0), (''A'', 10, 50, 0)]
 \<and> get_leaderboard 3 1 2 ex_ranked_server = [(''C'', 9, 99, 0), (''B'', 10, 40, 0)]
 \<and> find_top3 (weeklyContests ex_scored_ledger 1) (players (weeklyContests ex_scored_ledger 1))
      (replicate 3 MAX_UINT256, replicate 3 0) = Inr ([9099, 10040, 10050], [3, 2, 1])
 \<and> stored_ranking (weeklyContests ex_scored_ledger 1) = [3, 2, 1]
 \<and> take 3 (stored_ranking (weeklyContests ex_scored_ledger 1) @ replicate 3 0) = [3, 2, 1]"
proof -
  have ft: "find_top3 (weeklyContests ex_scored_ledger 1) (players (weeklyContests ex_scored_ledger 1))
      (replicate 3 MAX_UINT256, replicate 3 0) = Inr ([9099, 10040, 10050], [3, 2, 1])"
    using ex_scored_find_top3 by (simp add: ex_scored_fields)
  note inst = ranking_order[of 3 1 0 ex_ranked_server "weeklyContests ex_scored_ledger 1"
      ex_scored_ledger 1 "[9099, 10040, 10050]" "[3, 2, 1]"]
  from inst ft reachable_examples(1)
  have w: "[3, 2, 1] = take 3 (stored_ranking (weeklyContests ex_scored_ledger 1) @ replicate 3 0)"
    by blast
  have r: "stored_ranking (weeklyContests ex_scored_ledger 1) = [3, 2, 1]"
    using ex_scored_ranking by (simp add: ex_scored_fields)
  have c: "contest_completions 1 ex_ranked_server
      = [ex_completion ''A'' 10 50, ex_completion ''B'' 10 40, ex_completion ''C'' 9 99]"
    by (simp add: contest_completions_def ex_ranked_server_def ex_completion_def)
  have l2: "get_leaderboard 3 1 2 ex_ranked_server = [(''C'', 9, 99, 0), (''B'', 10, 40, 0)]"
    by (simp add: get_leaderboard_def ex_ranked_server_def ex_completion_def less_eq_prod_def)
  from inst have l: "get_leaderboard 3 1 0 ex_ranked_server
      = [(''C'', 9, 99, 0), (''B'', 10, 40, 0), (''A'', 10, 50, 0)]" by blast
  from reachable_examples(1) c l l2 ft r w show ?thesis by simp
qed

section \<open>Properties of the game server\<close>

subsection \<open>Sessions\<close>






lemma map_gameId_update_first:
  "(\<And>g. g_gameId (f g) = g_gameId g) \<Longrightarrow> map g_gameId (update_first P f gs) = map g_gameId gs"
  by (induction gs) auto

lemma set_update_first:
  "g' \<in> set (update_first P f gs) \<Longrightarrow> g' \<in> set gs \<or> (\<exists>g \<in> set gs. P g \<and> g' = f g)"
  by (induction gs) (auto split: if_splits)

lemma update_first_keeps:
  "g \<in> set gs \<Longrightarrow> \<not> P g \<Longrightarrow> g \<in> set (update_first P f gs)"
  by (induction gs) auto

lemma update_first_hits:
  "g \<in> set gs \<Longrightarrow> P g \<Longrightarrow> \<exists>g' \<in> set gs. P g' \<and> f g' \<in> set (update_first P f gs)"
  by (induction gs) auto

lemma find_Some_set: "find P xs = Some x \<Longrightarrow> x \<in> set xs \<and> P x"
  by (induction xs) (auto split: if_splits)

lemma distinct_gameId_unique:
  "distinct (map g_gameId gs) \<Longrightarrow> g \<in> set gs \<Longrightarrow> g' \<in> set gs \<Longrightarrow> g_gameId g = g_gameId g'
    \<Longrightarrow> g = g'"
  by (metis distinct_map inj_onD)

lemma complete_game_cases:
  assumes "complete_game H now req game s = (resp, s')"
  shows "games s' = update_first (\<lambda>g. g_gameId g = v_gameId req)
           (\<lambda>g. g\<lparr> g_completed := True, g_moves := v_moves req, g_timeTaken := v_timeTaken req,
                    g_completedAt := Some now \<rparr>) (games s)
    \<and> ((resp = Error 500 ''Server error'' \<and> leaderboard s' = leaderboard s)
       \<or> (\<exists>sec prf c. resp = Accepted sec prf \<and> leaderboard s' = leaderboard s @ [c]
             \<and> lb_gameId c = v_gameId req))"
  using assms by (auto simp: complete_game_def Let_def split: list.splits)

lemma complete_game_inv:
  assumes inv: "sessions_inv s"
    and found: "find (\<lambda>g. g_gameId g = v_gameId req \<and> g_playerAddress g = v_playerAddress req)
                  (games s) = Some game"
    and open_: "\<not> g_completed game"
    and step: "complete_game H now req game s = (resp, s')"
  shows "sessions_inv s'"
proof -
  let ?P = "\<lambda>g. g_gameId g = v_gameId req"
  let ?f = "\<lambda>g. g\<lparr> g_completed := True, g_moves := v_moves req, g_timeTaken := v_timeTaken req,
                    g_completedAt := Some now \<rparr>"
  from complete_game_cases[OF step] have gs: "games s' = update_first ?P ?f (games s)"
    and lb: "(resp = Error 500 ''Server error'' \<and> leaderboard s' = leaderboard s)
       \<or> (\<exists>sec prf c. resp = Accepted sec prf \<and> leaderboard s' = leaderboard s @ [c]
             \<and> lb_gameId c = v_gameId req)" by blast+
  from find_Some_set[OF found] have gin: "game \<in> set (games s)" and gid: "g_gameId game = v_gameId req"
    by simp_all
  from inv have dist: "distinct (map g_gameId (games s))"
    and valid: "\<forall>g \<in> set (games s). valid_address (g_playerAddress g)"
    and recs: "\<And>gid. records_of gid s = 0
            \<or> (records_of gid s = 1 \<and> (\<exists>g \<in> set (games s). g_gameId g = gid \<and> g_completed g))"
    by (auto simp: sessions_inv_def)
  have ids: "map g_gameId (games s') = map g_gameId (games s)"
    unfolding gs by (rule map_gameId_update_first) simp
  have d': "distinct (map g_gameId (games s'))" using dist ids by simp
  have v': "\<forall>g \<in> set (games s'). valid_address (g_playerAddress g)"
  proof
    fix g' assume "g' \<in> set (games s')"
    from set_update_first[OF this[unfolded gs]] valid show "valid_address (g_playerAddress g')"
      by auto
  qed
  have zero: "records_of (v_gameId req) s = 0"
  proof (rule ccontr)
    assume "records_of (v_gameId req) s \<noteq> 0"
    with recs[of "v_gameId req"] obtain g where "g \<in> set (games s)" "g_gameId g = v_gameId req"
      "g_completed g" by auto
    with distinct_gameId_unique[OF dist gin this(1)] gid open_ show False by simp
  qed
  have done_: "\<exists>g \<in> set (games s'). g_gameId g = v_gameId req \<and> g_completed g"
  proof -
    from update_first_hits[OF gin, of ?P ?f] gid
    obtain g0 where "g0 \<in> set (games s)" "?P g0" "?f g0 \<in> set (games s')"
      unfolding gs by auto
    then show ?thesis by (intro bexI[of _ "?f g0"]) simp_all
  qed
  have keep: "\<And>gid. (\<exists>g \<in> set (games s). g_gameId g = gid \<and> g_completed g)
                \<Longrightarrow> (\<exists>g \<in> set (games s'). g_gameId g = gid \<and> g_completed g)"
  proof -
    fix gid' assume "\<exists>g \<in> set (games s). g_gameId g = gid' \<and> g_completed g"
    then obtain g where g: "g \<in> set (games s)" "g_gameId g = gid'" "g_completed g" by blast
    show "\<exists>g \<in> set (games s'). g_gameId g = gid' \<and> g_completed g"
    proof (cases "?P g")
      case True
      with g done_ show ?thesis by auto
    next
      case False
      from update_first_keeps[of g "games s" ?P ?f] g(1) False
      have "g \<in> set (games s')" unfolding gs by blast
      with g show ?thesis by blast
    qed
  qed
  have r': "\<forall>gid. records_of gid s' = 0
            \<or> (records_of gid s' = 1 \<and> (\<exists>g \<in> set (games s'). g_gameId g = gid \<and> g_completed g))"
  proof
    fix gid'
    from lb show "records_of gid' s' = 0
            \<or> (records_of gid' s' = 1 \<and> (\<exists>g \<in> set (games s'). g_gameId g = gid' \<and> g_completed g))"
    proof
      assume "resp = Error 500 ''Server error'' \<and> leaderboard s' = leaderboard s"
      then have "records_of gid' s' = records_of gid' s" by (simp add: records_of_def)
      with recs[of gid'] keep[of gid'] show ?thesis by auto
    next
      assume "\<exists>sec prf c. resp = Accepted sec prf \<and> leaderboard s' = leaderboard s @ [c]
             \<and> lb_gameId c = v_gameId req"
      then obtain c where c: "leaderboard s' = leaderboard s @ [c]" "lb_gameId c = v_gameId req"
        by blast
      show ?thesis
      proof (cases "gid' = v_gameId req")
        case True
        with c zero have "records_of gid' s' = 1" by (simp add: records_of_def)
        with done_ True show ?thesis by simp
      next
        case False
        with c have "records_of gid' s' = records_of gid' s" by (simp add: records_of_def)
        with recs[of gid'] keep[of gid'] show ?thesis by auto
      qed
    qed
  qed
  from d' v' r' show ?thesis by (simp add: sessions_inv_def)
qed

lemma find_after_update:
  assumes "distinct (map g_gameId gs)"
    and "find (\<lambda>g. g_gameId g = gid \<and> g_playerAddress g = p) gs = Some game"
    and "\<And>g. g_gameId (f g) = g_gameId g" "\<And>g. g_playerAddress (f g) = g_playerAddress g"
  shows "find (\<lambda>g. g_gameId g = gid \<and> g_playerAddress g = p)
           (update_first (\<lambda>g. g_gameId g = gid) f gs) = Some (f game)"
  using assms(1,2)
proof (induction gs)
  case Nil
  then show ?case by simp
next
  case (Cons x xs)
  show ?case
  proof (cases "g_gameId x = gid")
    case True
    show ?thesis
    proof (cases "g_playerAddress x = p")
      case True
      with \<open>g_gameId x = gid\<close> Cons.prems assms(3,4) show ?thesis by simp
    next
      case False
      with Cons.prems have "find (\<lambda>g. g_gameId g = gid \<and> g_playerAddress g = p) xs = Some game"
        by simp
      from find_Some_set[OF this] have "game \<in> set xs" "g_gameId game = gid" by simp_all
      then have "gid \<in> g_gameId ` set xs" by blast
      with True Cons.prems(1) have False by simp
      then show ?thesis ..
    qed
  next
    case False
    with Cons show ?thesis by simp
  qed
qed

lemma verify_after_accept_aux:
  assumes inv: "sessions_inv s"
    and found: "find (\<lambda>g. g_gameId g = v_gameId req \<and> g_playerAddress g = v_playerAddress req)
                  (games s) = Some game"
    and step: "complete_game H now req game s = (resp, s')"
  shows "\<exists>g'. find (\<lambda>g. g_gameId g = v_gameId req \<and> g_playerAddress g = v_playerAddress req)
                  (games s') = Some g' \<and> g_completed g'"
proof -
  from inv have dist: "distinct (map g_gameId (games s))" by (simp add: sessions_inv_def)
  from complete_game_cases[OF step]
  have gs: "games s' = update_first (\<lambda>g. g_gameId g = v_gameId req)
           (\<lambda>g. g\<lparr> g_completed := True, g_moves := v_moves req, g_timeTaken := v_timeTaken req,
                    g_completedAt := Some now \<rparr>) (games s)" by blast
  show ?thesis unfolding gs
    by (subst find_after_update[OF dist found]) simp_all
qed

lemma verify_completed:
  assumes "find (\<lambda>g. g_gameId g = v_gameId req \<and> g_playerAddress g = v_playerAddress req)
             (games s) = Some g" "g_completed g"
    and "v_gameId req \<noteq> []" "v_moves req \<noteq> 0" "v_timeTaken req \<noteq> 0" "v_playerAddress req \<noteq> []"
  shows "verify H now req s = (Error 400 ''Game already completed'', s)"
    and "v_boardState req \<noteq> None \<Longrightarrow> verify2 H now req s = (Error 400 ''Game already completed'', s)"
  using assms by (simp_all add: verify_def verify2_def)

lemma verify_result:
  assumes "verify H now req s = (resp, s')"
  shows "(s' = s \<and> (\<forall>sec prf. resp \<noteq> Accepted sec prf))
       \<or> (\<exists>game. find (\<lambda>g. g_gameId g = v_gameId req \<and> g_playerAddress g = v_playerAddress req)
                     (games s) = Some game \<and> \<not> g_completed game
                  \<and> v_gameId req \<noteq> [] \<and> v_playerAddress req \<noteq> []
                  \<and> complete_game H now req game s = (resp, s'))"
  using assms by (auto simp: verify_def split: if_splits option.splits)

lemma verify2_result:
  assumes "verify2 H now req s = (resp, s')"
  shows "(s' = s \<and> (\<forall>sec prf. resp \<noteq> Accepted sec prf))
       \<or> (\<exists>game. find (\<lambda>g. g_gameId g = v_gameId req \<and> g_playerAddress g = v_playerAddress req)
                     (games s) = Some game \<and> \<not> g_completed game
                  \<and> v_gameId req \<noteq> [] \<and> v_playerAddress req \<noteq> []
                  \<and> complete_game H now req game s = (resp, s'))"
  using assms by (auto simp: verify2_def Let_def validateBoardSolution_def split: if_splits option.splits)

lemma new_game_result:
  assumes "new_game H mc now r p cid s = (resp, s')"
  shows "s' = s \<or> (\<exists>g. games s' = games s @ [g] \<and> leaderboard s' = leaderboard s
            \<and> g_gameId g \<notin> set (map g_gameId (games s)) \<and> valid_address (g_playerAddress g)
            \<and> \<not> g_completed g)"
  using assms
  by (auto simp: new_game_def Let_def split: if_splits option.splits outcome.splits)

lemma new_game_inv:
  assumes "sessions_inv s" "new_game H mc now r p cid s = (resp, s')"
  shows "sessions_inv s'"
proof -
  from new_game_result[OF assms(2)] show ?thesis
  proof
    assume "s' = s" with assms(1) show ?thesis by simp
  next
    assume "\<exists>g. games s' = games s @ [g] \<and> leaderboard s' = leaderboard s
            \<and> g_gameId g \<notin> set (map g_gameId (games s)) \<and> valid_address (g_playerAddress g)
            \<and> \<not> g_completed g"
    then obtain g where g: "games s' = games s @ [g]" "leaderboard s' = leaderboard s"
      "g_gameId g \<notin> set (map g_gameId (games s))" "valid_address (g_playerAddress g)" by blast
    from g(2) have r: "\<And>gid. records_of gid s' = records_of gid s" by (simp add: records_of_def)
    from assms(1) have dist: "distinct (map g_gameId (games s))"
      and valid: "\<forall>g \<in> set (games s). valid_address (g_playerAddress g)"
      and recs: "\<And>gid. records_of gid s = 0
            \<or> (records_of gid s = 1 \<and> (\<exists>g \<in> set (games s). g_gameId g = gid \<and> g_completed g))"
      by (auto simp: sessions_inv_def)
    have 1: "distinct (map g_gameId (games s'))" using dist g(1,3) by simp
    have 2: "\<forall>g \<in> set (games s'). valid_address (g_playerAddress g)"
      using valid g(1,4) by simp
    have 3: "\<forall>gid. records_of gid s' = 0
            \<or> (records_of gid s' = 1 \<and> (\<exists>g \<in> set (games s'). g_gameId g = gid \<and> g_completed g))"
    proof
      fix gid
      from recs[of gid] show "records_of gid s' = 0
            \<or> (records_of gid s' = 1 \<and> (\<exists>g \<in> set (games s'). g_gameId g = gid \<and> g_completed g))"
        unfolding r g(1) by auto
    qed
    from 1 2 3 show ?thesis by (simp add: sessions_inv_def)
  qed
qed

lemma handle_inv:
  assumes "sessions_inv s" "handle H mc now rq s = (resp, s')"
  shows "sessions_inv s'"
proof (cases rq)
  case (NewGameRequest r p cid)
  with assms show ?thesis by (auto intro: new_game_inv)
next
  case (VerifyRequest req)
  with assms have "verify H now req s = (resp, s')" by simp
  from verify_result[OF this] assms(1) show ?thesis
    by (auto intro: complete_game_inv)
next
  case (Verify2Request req)
  with assms have "verify2 H now req s = (resp, s')" by simp
  from verify2_result[OF this] assms(1) show ?thesis
    by (auto intro: complete_game_inv)
qed

lemma served_inv: "served H mc s \<Longrightarrow> sessions_inv s"
proof (induction rule: served.induct)
  case empty_db
  show ?case by (simp add: sessions_inv_def records_of_def)
next
  case (request s now rq resp s')
  then show ?case by (blast intro: handle_inv)
qed

lemma records_le_1: "sessions_inv s \<Longrightarrow> records_of gid s \<le> 1"
  unfolding sessions_inv_def by (metis le_numeral_extra(4) zero_le)

lemma verify_completed_any:
  assumes inv: "sessions_inv s" and g: "g \<in> set (games s)" "g_gameId g = v_gameId req" "g_completed g"
  shows "\<exists>code msg. verify H now req s = (Error code msg, s)"
    and "\<exists>code msg. verify2 H now req s = (Error code msg, s)"
proof -
  from inv have dist: "distinct (map g_gameId (games s))" by (simp add: sessions_inv_def)
  have found: "\<And>game. find (\<lambda>g. g_gameId g = v_gameId req \<and> g_playerAddress g = v_playerAddress req)
                  (games s) = Some game \<Longrightarrow> g_completed game"
  proof -
    fix game
    assume "find (\<lambda>g. g_gameId g = v_gameId req \<and> g_playerAddress g = v_playerAddress req)
                  (games s) = Some game"
    from find_Some_set[OF this] have "game \<in> set (games s)" "g_gameId game = v_gameId req"
      by simp_all
    with distinct_gameId_unique[OF dist g(1) this(1)] g show "g_completed game" by simp
  qed
  show "\<exists>code msg. verify H now req s = (Error code msg, s)"
    using found by (auto simp: verify_def split: option.splits)
  show "\<exists>code msg. verify2 H now req s = (Error code msg, s)"
    using found by (auto simp: verify2_def split: option.splits)
qed

lemma ex_generate: "generateMinefield 4 4 (Suc 0) [(1, 1), (0, 0)] = Returned ex_board"
  by code_simp

lemma valid_ex_player: "valid_address ex_player"
  by (simp add: valid_address_def ex_player_def hex_digit_def)

lemma ex_new_game:
  "new_game ex_H ex_mineCountOf 0 ex_randomness ex_player (- 70) \<lparr> games = [], leaderboard = [] \<rparr>
     = (NewGame ''g1'' ''0xdigest'', ex_session_server)"
  using ex_generate
  by (simp add: new_game_def valid_ex_player ex_mineCountOf_def ex_randomness_def
        Let_def ex_H_def ex_session_server_def ex_game_def)

lemma served_ex_session: "served ex_H ex_mineCountOf ex_session_server"
proof -
  have "handle ex_H ex_mineCountOf 0 (NewGameRequest ex_randomness ex_player (- 70))
          \<lparr> games = [], leaderboard = [] \<rparr> = (NewGame ''g1'' ''0xdigest'', ex_session_server)"
    using ex_new_game by simp
  with served.empty_db show ?thesis by (rule served.request)
qed



lemma ex_countMines: "countMines ex_board = 1"
  by (simp add: countMines_def ex_board_def)

lemma ex_verify_win:
  "verify ex_H 7 ex_win_request ex_session_server
     = (Accepted ''0xs3cr3t'' ''0xdigest'', ex_completed_server 3 42 7)"
  "verify2 ex_H 7 ex_win_request ex_session_server
     = (Accepted ''0xs3cr3t'' ''0xdigest'', ex_completed_server 3 42 7)"
  by (simp_all add: verify_def verify2_def validateBoardSolution_def complete_game_def
        ex_win_request_def ex_session_server_def ex_game_def ex_completed_server_def
        ex_completed_game_def ex_record_def ex_H_def ex_player_def Let_def ex_countMines)
     (simp_all add: ex_board_def show_nat.simps countMines_def)

text \<open>
  Claim C1 does not hold on the code: \<^verbatim>\<open>validateBoardSolution\<close> is \<^verbatim>\<open>return true\<close>,
  and the handler of \<^verbatim>\<open>server.js\<close> does not look at the solution state. On the example
  session, whose board has its mine at \<open>(0, 0)\<close>, the request that reveals the mine and
  leaves the cell \<open>(1, 0)\<close> unrevealed is accepted by both handlers; the game is marked
  completed and a completion record is stored.
\<close>

theorem verify_accepts_invalid_solution:
  "\<not> g_completed ex_game
 \<and> read_cell (g_board ex_game) 0 0 = Some Mine
 \<and> read_cell (g_board ex_game) 1 0 = Some (Num 1)
 \<and> map (\<lambda>row. row ! 0) (the (v_boardState ex_bad_request)) ! 0 = True
 \<and> the (v_boardState ex_bad_request) ! 0 ! 1 = False
 \<and> verify2 ex_H 7 ex_bad_request ex_session_server
      = (Accepted ''0xs3cr3t'' ''0xdigest'', ex_completed_server 1 1 7)
 \<and> verify ex_H 7 ex_bad_request ex_session_server
      = (Accepted ''0xs3cr3t'' ''0xdigest'', ex_completed_server 1 1 7)
 \<and> ex_completed_server 1 1 7 \<noteq> ex_session_server"
  by (simp add: verify_def verify2_def validateBoardSolution_def complete_game_def
        ex_bad_request_def ex_session_server_def ex_game_def ex_completed_server_def
        ex_completed_game_def ex_record_def ex_H_def ex_player_def Let_def ex_countMines
        read_cell_def)
     (simp add: ex_board_def show_nat.simps countMines_def)

text \<open>
  Verify requests handled one after another, each answered before the next is read, in every
  state the server can reach that way: after a verify request was accepted, every further
  verify request for that session (the same game id and player, moves and time given) is
  answered "Game already completed" and changes nothing; a verify request that names a
  completed game is never accepted and never changes the state, whatever its other fields;
  and a game id has at most one completion record.
\<close>

lemma verify_in_turn:
  "(served H mc s
      \<and> (verify H now req s = (Accepted sec prf, s1) \<or> verify2 H now req s = (Accepted sec prf, s1))
      \<and> v_gameId req' = v_gameId req \<and> v_playerAddress req' = v_playerAddress req
      \<and> v_moves req' \<noteq> 0 \<and> v_timeTaken req' \<noteq> 0
    \<longrightarrow> verify H now' req' s1 = (Error 400 ''Game already completed'', s1)
      \<and> (v_boardState req' \<noteq> None
           \<longrightarrow> verify2 H now' req' s1 = (Error 400 ''Game already completed'', s1)))
 \<and> (served H mc s \<and> g \<in> set (games s) \<and> g_gameId g = v_gameId req \<and> g_completed g
    \<longrightarrow> (\<exists>code msg. verify H now req s = (Error code msg, s))
      \<and> (\<exists>code msg. verify2 H now req s = (Error code msg, s)))
 \<and> (served H mc s \<longrightarrow> records_of gid s \<le> 1)"
proof (intro conjI impI)
  assume a: "served H mc s
      \<and> (verify H now req s = (Accepted sec prf, s1) \<or> verify2 H now req s = (Accepted sec prf, s1))
      \<and> v_gameId req' = v_gameId req \<and> v_playerAddress req' = v_playerAddress req
      \<and> v_moves req' \<noteq> 0 \<and> v_timeTaken req' \<noteq> 0"
  then have inv: "sessions_inv s" by (blast intro: served_inv)
  from a verify_result[of H now req s "Accepted sec prf" s1]
    verify2_result[of H now req s "Accepted sec prf" s1]
  obtain game where found:
      "find (\<lambda>g. g_gameId g = v_gameId req \<and> g_playerAddress g = v_playerAddress req)
         (games s) = Some game"
    and ne: "v_gameId req \<noteq> []" "v_playerAddress req \<noteq> []"
    and cg: "complete_game H now req game s = (Accepted sec prf, s1)" by blast
  from verify_after_accept_aux[OF inv found cg] obtain g' where
    f': "find (\<lambda>g. g_gameId g = v_gameId req' \<and> g_playerAddress g = v_playerAddress req')
           (games s1) = Some g'" and c': "g_completed g'"
    using a by auto
  from a ne have t: "v_gameId req' \<noteq> []" "v_moves req' \<noteq> 0" "v_timeTaken req' \<noteq> 0"
    "v_playerAddress req' \<noteq> []" by simp_all
  from verify_completed(1)[OF f' c' t]
  show "verify H now' req' s1 = (Error 400 ''Game already completed'', s1)" .
  assume "v_boardState req' \<noteq> None"
  from verify_completed(2)[OF f' c' t this]
  show "verify2 H now' req' s1 = (Error 400 ''Game already completed'', s1)" .
next
  assume a: "served H mc s \<and> g \<in> set (games s) \<and> g_gameId g = v_gameId req \<and> g_completed g"
  then have inv: "sessions_inv s" by (blast intro: served_inv)
  from a verify_completed_any[OF inv, of g req]
  show "\<exists>code msg. verify H now req s = (Error code msg, s)"
    and "\<exists>code msg. verify2 H now req s = (Error code msg, s)" by blast+
next
  assume "served H mc s"
  then show "records_of gid s \<le> 1" by (intro records_le_1 served_inv)
qed

lemma ex_completed_fields:
  "games (ex_completed_server m t now) = [ex_completed_game m t now]"
  "leaderboard (ex_completed_server m t now) = [ex_record m t now]"
  "g_gameId (ex_completed_game m t now) = ''g1''"
  "g_playerAddress (ex_completed_game m t now) = ex_player"
  "g_completed (ex_completed_game m t now)"
  "lb_gameId (ex_record m t now) = ''g1''"
  by (simp_all add: ex_completed_server_def ex_completed_game_def ex_record_def ex_game_def)

lemma ex_request_fields:
  "v_gameId ex_win_request = ''g1''" "v_playerAddress ex_win_request = ex_player"
  "v_moves ex_win_request = 3" "v_timeTaken ex_win_request = 42"
  "v_boardState ex_win_request \<noteq> None"
  "v_gameId ex_bad_request = ''g1''" "v_playerAddress ex_bad_request = ex_player"
  "v_moves ex_bad_request = 1" "v_timeTaken ex_bad_request = 1"
  "v_boardState ex_bad_request \<noteq> None"
  by (simp_all add: ex_win_request_def ex_bad_request_def)

lemma ex_player_nonempty: "ex_player \<noteq> []"
  by (simp add: ex_player_def)

subsection \<open>Requests in flight\<close>

text \<open>The three steps of a task, taken without another task in between, are \<open>verify\<close>.\<close>

lemma verify_in_steps:
  "in_flight H [0, 0, 0] [AtFind now req] s
     = ([Responded (fst (verify H now req s))], snd (verify H now req s))"
  by (auto simp: verify_def verify_step_def complete_game_def Let_def
           split: option.splits list.splits)

lemma ex_valid_player: "valid_address ex_player"
  by (simp add: valid_address_def ex_player_def hex_digit_def)

lemma ex_empty_new_game:
  "new_game ex_H ex_mineCountOf 0 ex_empty_randomness ex_player (- 110)
     \<lparr> games = [], leaderboard = [] \<rparr>
     = (NewGame ''g0'' ''0xdigest'', \<lparr> games = [ex_empty_game], leaderboard = [] \<rparr>)"
  by (simp add: new_game_def ex_valid_player ex_mineCountOf_def ex_empty_randomness_def
        generateMinefield_def calculate_numbers_def Let_def ex_H_def ex_empty_game_def)

lemma ex_empty_verify:
  "verify ex_H 1 ex_empty_request \<lparr> games = [ex_empty_game], leaderboard = [] \<rparr>
     = (Error 500 ''Server error'', ex_empty_completed)"
  "verify ex_H 2 ex_empty_request ex_empty_completed
     = (Error 400 ''Game already completed'', ex_empty_completed)"
  by (simp_all add: verify_def complete_game_def ex_empty_request_def ex_empty_game_def
        ex_empty_completed_def ex_player_def Let_def)

lemma ex_race:
  "in_flight ex_H [0, 1, 0, 0, 1, 1] [AtFind 7 ex_win_request, AtFind 8 ex_win_request]
     ex_session_server
     = ([Responded (Accepted ''0xs3cr3t'' ''0xdigest''),
         Responded (Accepted ''0xs3cr3t'' ''0xdigest'')], ex_raced_server)"
  by (simp add: verify_step_def ex_win_request_def ex_session_server_def ex_game_def
        ex_raced_server_def ex_completed_game_def ex_record_def ex_H_def ex_player_def Let_def
        ex_board_def show_nat.simps countMines_def)

lemma ex_in_turn:
  "in_flight ex_H [0, 0, 0, 1, 1, 1] [AtFind 7 ex_win_request, AtFind 8 ex_win_request]
     ex_session_server
     = ([Responded (Accepted ''0xs3cr3t'' ''0xdigest''),
         Responded (Error 400 ''Game already completed'')], ex_completed_server 3 42 7)"
  by (simp add: verify_step_def ex_win_request_def ex_session_server_def ex_game_def
        ex_completed_server_def ex_completed_game_def ex_record_def ex_H_def ex_player_def Let_def
        ex_board_def show_nat.simps countMines_def)

text \<open>
  Claim C3 does not hold on the code. The handler reads the session, and only after two
  further awaits has it marked the session completed and stored the record. First, two
  verify requests for the open example session are in flight together: both read the session
  before either has updated it, both are accepted, and the session has two completion
  records (had the first been answered before the second was read, the second would have
  been answered "Game already completed"). Second, one request after another: the session of contest \<open>-110\<close> has a board
  without rows; its verification marks it completed, then fails on
  \<^verbatim>\<open>game.board[0].length\<close> and is answered 500; the session is completed, has no
  completion record and is never accepted, since every later verification is answered
  "Game already completed".
\<close>

theorem verify_accepted_twice:
  "served ex_H ex_mineCountOf ex_session_server
 \<and> \<not> g_completed ex_game
 \<and> in_flight ex_H [0, 1, 0, 0, 1, 1] [AtFind 7 ex_win_request, AtFind 8 ex_win_request]
      ex_session_server
      = ([Responded (Accepted ''0xs3cr3t'' ''0xdigest''),
          Responded (Accepted ''0xs3cr3t'' ''0xdigest'')], ex_raced_server)
 \<and> records_of ''g1'' ex_raced_server = 2
 \<and> in_flight ex_H [0, 0, 0, 1, 1, 1] [AtFind 7 ex_win_request, AtFind 8 ex_win_request]
      ex_session_server
      = ([Responded (Accepted ''0xs3cr3t'' ''0xdigest''),
          Responded (Error 400 ''Game already completed'')], ex_completed_server 3 42 7)
 \<and> new_game ex_H ex_mineCountOf 0 ex_empty_randomness ex_player (- 110)
      \<lparr> games = [], leaderboard = [] \<rparr>
      = (NewGame ''g0'' ''0xdigest'', \<lparr> games = [ex_empty_game], leaderboard = [] \<rparr>)
 \<and> verify ex_H 1 ex_empty_request \<lparr> games = [ex_empty_game], leaderboard = [] \<rparr>
      = (Error 500 ''Server error'', ex_empty_completed)
 \<and> list_all g_completed (games ex_empty_completed)
 \<and> records_of ''g0'' ex_empty_completed = 0
 \<and> verify ex_H 2 ex_empty_request ex_empty_completed
      = (Error 400 ''Game already completed'', ex_empty_completed)"
proof -
  have 1: "\<not> g_completed ex_game" by (simp add: ex_game_def)
  have 2: "records_of ''g1'' ex_raced_server = 2"
    by (simp add: records_of_def ex_raced_server_def ex_record_def)
  have 3: "list_all g_completed (games ex_empty_completed)"
    "records_of ''g0'' ex_empty_completed = 0"
    by (simp_all add: ex_empty_completed_def records_of_def)
  from served_ex_session 1 ex_race 2 ex_in_turn ex_empty_new_game ex_empty_verify 3 show ?thesis
    by (simp only: simp_thms)
qed

subsection \<open>The generated board\<close>

lemma countMines_sum: "countMines board = sum_list (map mines_in board)"
  by (induction board) (simp_all add: countMines_def mines_in_def)

lemma sum_list_update_nat:
  fixes xs :: "nat list"
  shows "i < length xs \<Longrightarrow> sum_list (xs[i := v]) + xs ! i = sum_list xs + v"
  by (induction xs arbitrary: i) (auto split: nat.splits)

lemma countMines_update:
  "y < length board \<Longrightarrow> countMines (board[y := row]) + mines_in (board ! y) = countMines board + mines_in row"
  using sum_list_update_nat[of y "map mines_in board" "mines_in row"]
  by (simp add: countMines_sum map_update)

lemma mines_in_sum:
  "mines_in row = sum_list (map (\<lambda>cell. if cell = Mine then 1 else 0) row)"
  by (induction row) (simp_all add: mines_in_def)

lemma mines_in_update:
  assumes "x < length row"
  shows "mines_in (row[x := v]) + (if row ! x = Mine then 1 else 0)
     = mines_in row + (if v = Mine then 1 else 0)"
proof -
  let ?c = "\<lambda>cell. if cell = Mine then 1 else (0::nat)"
  from assms have "x < length (map ?c row)" by simp
  from sum_list_update_nat[OF this, of "?c v"]
  have "sum_list (map ?c (row[x := v])) + ?c (row ! x) = sum_list (map ?c row) + ?c v"
    using assms by (simp only: map_update nth_map)
  then show ?thesis by (simp only: mines_in_sum)
qed

lemma mines_in_extend:
  "mines_in (row @ replicate n Hole @ [v]) = mines_in row + (if v = Mine then 1 else 0)"
  by (simp add: mines_in_def)

lemma length_write_cell [simp]: "length (write_cell board x y v) = length board"
  by (simp add: write_cell_def)

lemma countMines_write_cell:
  assumes "y < length board" "\<not> is_mine board x y"
  shows "countMines (write_cell board x y v) = countMines board + (if v = Mine then 1 else 0)"
proof (cases "x < length (board ! y)")
  case True
  with assms(2) have "board ! y ! x \<noteq> Mine" by (simp add: is_mine_def read_cell_def)
  with mines_in_update[OF True, of v] countMines_update[OF assms(1), of "(board ! y)[x := v]"] True
  show ?thesis by (simp add: write_cell_def Let_def split: if_splits)
next
  case False
  with mines_in_extend[of "board ! y" "x - length (board ! y)" v]
    countMines_update[OF assms(1), of "board ! y @ replicate (x - length (board ! y)) Hole @ [v]"]
  show ?thesis by (simp add: write_cell_def Let_def split: if_splits)
qed

lemma is_mine_write_cell:
  assumes "y < length board"
  shows "is_mine (write_cell board x y v) x' y' =
           (if x' = x \<and> y' = y then v = Mine else is_mine board x' y')"
proof (cases "y' = y")
  case False
  then show ?thesis by (simp add: is_mine_def read_cell_def write_cell_def)
next
  case True
  show ?thesis
  proof (cases "x < length (board ! y)")
    case True
    with \<open>y' = y\<close> assms show ?thesis
      by (auto simp: is_mine_def read_cell_def write_cell_def Let_def nth_list_update)
  next
    case False
    with \<open>y' = y\<close> assms show ?thesis
      by (auto simp: is_mine_def read_cell_def write_cell_def Let_def nth_append)
  qed
qed

lemma read_write_cell_same:
  "y < length board \<Longrightarrow> read_cell (write_cell board x y v) x y = Some v"
  by (simp add: read_cell_def write_cell_def Let_def nth_append)

lemma read_write_cell_other:
  "y < length board \<Longrightarrow> x < length (board ! y) \<Longrightarrow> (x', y') \<noteq> (x, y)
    \<Longrightarrow> read_cell (write_cell board x y v) x' y' = read_cell board x' y'"
  by (cases "y' = y") (auto simp: read_cell_def write_cell_def Let_def nth_list_update)

lemma rect_write_cell:
  "rect w h board \<Longrightarrow> x < w \<Longrightarrow> y < h \<Longrightarrow> rect w h (write_cell board x y v)"
  by (auto simp: rect_def write_cell_def Let_def dest!: set_update_subset_insert[THEN subsetD])

lemma is_mine_replicate: "y < h \<Longrightarrow> \<not> is_mine (replicate h (replicate w (Num 0))) x y"
  by (auto simp: is_mine_def read_cell_def)

lemma countMines_replicate: "countMines (replicate h (replicate w (Num 0))) = 0"
  by (simp add: countMines_def)

lemma placing_inv_init:
  "placing_inv width height (replicate height (replicate width (Num 0))) 0"
  by (simp add: placing_inv_def is_mine_replicate countMines_replicate)

lemma placing_inv_step:
  assumes inv: "placing_inv width height board mines"
    and ok: "draw_ok width x" "draw_ok height y"
    and y: "y < length board"
    and out: "\<not> in_safe_area (width div 2) (height div 2) x y"
    and free: "read_cell board x y \<noteq> Some Mine"
  shows "placing_inv width height (write_cell board x y Mine) (mines + 1)"
proof -
  from free have nm: "\<not> is_mine board x y" by (simp add: is_mine_def)
  from inv have len: "length board = height" and cnt: "countMines board = mines"
    and shape: "width > 0 \<longrightarrow> (\<forall>row \<in> set board. length row = width)"
    and safe: "\<And>x y. y < height \<Longrightarrow> in_safe_area (width div 2) (height div 2) x y
             \<Longrightarrow> \<not> is_mine board x y"
    by (auto simp: placing_inv_def)
  have 1: "countMines (write_cell board x y Mine) = mines + 1"
    using countMines_write_cell[OF y nm, of Mine] cnt by simp
  have 2: "width > 0 \<longrightarrow> (\<forall>row \<in> set (write_cell board x y Mine). length row = width)"
  proof
    assume w: "width > 0"
    with ok(1) have "x < width" by (simp add: draw_ok_def)
    with shape w y len have "rect width height (write_cell board x y Mine)"
      by (intro rect_write_cell) (auto simp: rect_def)
    then show "\<forall>row \<in> set (write_cell board x y Mine). length row = width"
      by (simp add: rect_def)
  qed
  have 3: "\<forall>x' y'. y' < height \<and> in_safe_area (width div 2) (height div 2) x' y'
             \<longrightarrow> \<not> is_mine (write_cell board x y Mine) x' y'"
    using out safe by (auto simp: is_mine_write_cell[OF y])
  from len 1 2 3 show ?thesis by (simp add: placing_inv_def)
qed

lemma place_mines_returned:
  assumes "place_mines (width div 2) (height div 2) mineCount draws board mines = Returned b"
    and "draws_ok width height draws"
    and "placing_inv width height board mines"
    and "mines \<le> mineCount"
  shows "placing_inv width height b mineCount"
  using assms
proof (induction draws arbitrary: board mines)
  case Nil
  then show ?case by (simp split: if_splits)
next
  case (Cons d draws)
  obtain x y where d: "d = (x, y)" by (cases d)
  from Cons.prems(2) d have ok: "draw_ok width x" "draw_ok height y"
    and rest: "draws_ok width height draws" by (simp_all add: draws_ok_def)
  show ?case
  proof (cases "mines < mineCount")
    case False
    with Cons.prems d show ?thesis by simp
  next
    case True
    show ?thesis
    proof (cases "in_safe_area (width div 2) (height div 2) x y")
      case True
      with \<open>mines < mineCount\<close> Cons.prems(1) d
      have "place_mines (width div 2) (height div 2) mineCount draws board mines = Returned b"
        by simp
      from Cons.IH[OF this rest Cons.prems(3,4)] show ?thesis .
    next
      case False
      with \<open>mines < mineCount\<close> Cons.prems(1) d have y: "y < length board"
        by (simp split: if_splits)
      show ?thesis
      proof (cases "read_cell board x y \<noteq> Some Mine")
        case True
        with False y \<open>mines < mineCount\<close> Cons.prems(1) d
        have "place_mines (width div 2) (height div 2) mineCount draws
                (write_cell board x y Mine) (mines + 1) = Returned b" by simp
        moreover from placing_inv_step[OF Cons.prems(3) ok y False True]
        have "placing_inv width height (write_cell board x y Mine) (mines + 1)" .
        moreover from \<open>mines < mineCount\<close> have "mines + 1 \<le> mineCount" by simp
        ultimately show ?thesis using Cons.IH rest by blast
      next
        case False
        with \<open>\<not> in_safe_area (width div 2) (height div 2) x y\<close> y \<open>mines < mineCount\<close>
          Cons.prems(1) d
        have "place_mines (width div 2) (height div 2) mineCount draws board mines = Returned b"
          by simp
        from Cons.IH[OF this rest Cons.prems(3,4)] show ?thesis .
      qed
    qed
  qed
qed





lemma fold_product:
  "fold (\<lambda>y. fold (f y) xs) ys b = fold (\<lambda>(y, x). f y x) (List.product ys xs) b"
proof (induction ys arbitrary: b)
  case Nil
  show ?case by simp
next
  case (Cons y ys)
  have "fold (\<lambda>(y, x). f y x) (map (Pair y) xs) b = fold (f y) xs b"
    by (simp add: fold_map comp_def)
  with Cons show ?case by simp
qed

lemma calculate_numbers_product:
  "calculate_numbers width height board =
     fold (\<lambda>(y, x). calculate_cell width height y x) (List.product [0..<height] [0..<width]) board"
  unfolding calculate_numbers_def by (rule fold_product)

lemma count_adjacent_cong:
  assumes "\<And>x' y'. y' < height \<Longrightarrow> is_mine b x' y' = is_mine b' x' y'"
  shows "count_adjacent width height b x y = count_adjacent width height b' x y"
proof -
  have "\<And>dx dy. (0 \<le> int y + dy \<and> int y + dy < int height \<and>
                    read_cell b (nat (int x + dx)) (nat (int y + dy)) = Some Mine)
                = (0 \<le> int y + dy \<and> int y + dy < int height \<and>
                    read_cell b' (nat (int x + dx)) (nat (int y + dy)) = Some Mine)"
    using assms by (auto simp: is_mine_def)
  then show ?thesis
    unfolding count_adjacent_def Let_def
    by (intro arg_cong[where f = length] filter_cong refl) auto
qed

lemma calculate_cell_props:
  assumes r: "rect w h b" and x: "x < w" and y: "y < h"
  shows "rect w h (calculate_cell w h y x b)"
    and "is_mine (calculate_cell w h y x b) x' y' = is_mine b x' y'"
    and "countMines (calculate_cell w h y x b) = countMines b"
    and "\<not> is_mine b x y \<Longrightarrow>
           read_cell (calculate_cell w h y x b) x y = Some (Num (count_adjacent w h b x y))"
    and "(x', y') \<noteq> (x, y) \<Longrightarrow> read_cell (calculate_cell w h y x b) x' y' = read_cell b x' y'"
proof -
  from r y have yl: "y < length b" by (simp add: rect_def)
  from r x yl have xl: "x < length (b ! y)" by (simp add: rect_def)
  show "rect w h (calculate_cell w h y x b)"
    using r x y by (simp add: calculate_cell_def rect_write_cell)
  show "is_mine (calculate_cell w h y x b) x' y' = is_mine b x' y'"
    by (auto simp: calculate_cell_def is_mine_write_cell[OF yl]) (simp_all add: is_mine_def)
  show "countMines (calculate_cell w h y x b) = countMines b"
    using countMines_write_cell[OF yl, of x] by (simp add: calculate_cell_def is_mine_def)
  show "\<not> is_mine b x y \<Longrightarrow>
           read_cell (calculate_cell w h y x b) x y = Some (Num (count_adjacent w h b x y))"
    using read_write_cell_same[OF yl] by (simp add: calculate_cell_def is_mine_def)
  show "(x', y') \<noteq> (x, y) \<Longrightarrow> read_cell (calculate_cell w h y x b) x' y' = read_cell b x' y'"
    using read_write_cell_other[OF yl xl] by (simp add: calculate_cell_def)
qed

lemma fold_cells:
  assumes "rect w h b" and "\<forall>(y, x) \<in> set cs. x < w \<and> y < h" and "distinct cs"
  shows "rect w h (fold (\<lambda>(y, x). calculate_cell w h y x) cs b)
    \<and> (\<forall>x' y'. is_mine (fold (\<lambda>(y, x). calculate_cell w h y x) cs b) x' y' = is_mine b x' y')
    \<and> countMines (fold (\<lambda>(y, x). calculate_cell w h y x) cs b) = countMines b
    \<and> (\<forall>(y, x) \<in> set cs. \<not> is_mine b x y \<longrightarrow>
          read_cell (fold (\<lambda>(y, x). calculate_cell w h y x) cs b) x y
            = Some (Num (count_adjacent w h b x y)))"
  using assms(2,3)
proof (induction cs rule: rev_induct)
  case Nil
  with assms(1) show ?case by simp
next
  case (snoc c cs)
  obtain y x where c: "c = (y, x)" by (cases c)
  let ?b = "fold (\<lambda>(y, x). calculate_cell w h y x) cs b"
  from snoc.prems c have xy: "x < w" "y < h" and new: "(y, x) \<notin> set cs"
    and rest: "\<forall>(y, x) \<in> set cs. x < w \<and> y < h" "distinct cs" by auto
  from snoc.IH[OF rest] have r: "rect w h ?b"
    and m: "\<And>x' y'. is_mine ?b x' y' = is_mine b x' y'"
    and k: "countMines ?b = countMines b"
    and v: "\<And>y0 x0. (y0, x0) \<in> set cs \<Longrightarrow> \<not> is_mine b x0 y0 \<Longrightarrow>
              read_cell ?b x0 y0 = Some (Num (count_adjacent w h b x0 y0))"
    by auto
  note p = calculate_cell_props[OF r xy]
  have step: "fold (\<lambda>(y, x). calculate_cell w h y x) (cs @ [c]) b = calculate_cell w h y x ?b"
    by (simp add: c)
  have adj: "count_adjacent w h ?b x y = count_adjacent w h b x y"
    by (rule count_adjacent_cong) (simp add: m)
  have 4: "\<forall>(y0, x0) \<in> set (cs @ [c]). \<not> is_mine b x0 y0 \<longrightarrow>
          read_cell (calculate_cell w h y x ?b) x0 y0 = Some (Num (count_adjacent w h b x0 y0))"
  proof (clarify)
    fix y0 x0 assume mem: "(y0, x0) \<in> set (cs @ [c])" and nm: "\<not> is_mine b x0 y0"
    show "read_cell (calculate_cell w h y x ?b) x0 y0 = Some (Num (count_adjacent w h b x0 y0))"
    proof (cases "(y0, x0) = (y, x)")
      case True
      with nm m have "\<not> is_mine ?b x y" by simp
      from p(4)[OF this] adj True show ?thesis by simp
    next
      case False
      with mem c have old: "(y0, x0) \<in> set cs" by auto
      from False have "(x0, y0) \<noteq> (x, y)" by auto
      from p(5)[OF this] v[OF old nm] show ?thesis by simp
    qed
  qed
  from p(1) p(2) p(3) m k 4 show ?case unfolding step by simp
qed

lemma calculate_numbers_rect:
  assumes "rect w h b"
  shows "rect w h (calculate_numbers w h b)"
    and "is_mine (calculate_numbers w h b) x y = is_mine b x y"
    and "countMines (calculate_numbers w h b) = countMines b"
    and "x < w \<Longrightarrow> y < h \<Longrightarrow> \<not> is_mine b x y \<Longrightarrow>
           read_cell (calculate_numbers w h b) x y
             = Some (Num (count_adjacent w h (calculate_numbers w h b) x y))"
proof -
  let ?cs = "List.product [0..<h] [0..<w]"
  have in_range: "\<forall>(y, x) \<in> set ?cs. x < w \<and> y < h" by auto
  have d: "distinct ?cs" by (simp add: distinct_product)
  note f = fold_cells[OF assms in_range d, folded calculate_numbers_product]
  from f show "rect w h (calculate_numbers w h b)" by blast
  from f show m: "is_mine (calculate_numbers w h b) x y = is_mine b x y" by blast
  from f show "countMines (calculate_numbers w h b) = countMines b" by blast
  assume xy: "x < w" "y < h" and nm: "\<not> is_mine b x y"
  then have "(y, x) \<in> set ?cs" by simp
  with f nm have "read_cell (calculate_numbers w h b) x y = Some (Num (count_adjacent w h b x y))"
    by blast
  moreover have "count_adjacent w h (calculate_numbers w h b) x y = count_adjacent w h b x y"
    by (rule count_adjacent_cong) (use f in blast)
  ultimately show "read_cell (calculate_numbers w h b) x y
             = Some (Num (count_adjacent w h (calculate_numbers w h b) x y))" by simp
qed

lemma calculate_numbers_no_columns: "calculate_numbers 0 h b = b"
  by (simp add: calculate_numbers_def fold_id)

lemma offsets_list:
  "offsets = [(-1, -1), (0, -1), (1, -1), (-1, 0), (1, 0), (-1, 1), (0, 1), (1, 1)]"
  by (simp add: offsets_def)

lemma distinct_offsets: "distinct offsets"
  by (simp add: offsets_list)

lemma set_offsets_sub:
  "(dx, dy) \<in> set offsets \<Longrightarrow> \<bar>dx\<bar> \<le> 1 \<and> \<bar>dy\<bar> \<le> 1 \<and> \<not> (dx = 0 \<and> dy = 0)"
  by (auto simp: offsets_list)

lemma set_offsets_sup:
  assumes "\<bar>dx\<bar> \<le> 1" "\<bar>dy\<bar> \<le> 1" "\<not> (dx = 0 \<and> dy = 0)"
  shows "(dx, dy) \<in> set offsets"
proof -
  from assms(1) have "dx = -1 \<or> dx = 0 \<or> dx = 1" by arith
  moreover from assms(2) have "dy = -1 \<or> dy = 0 \<or> dy = 1" by arith
  ultimately show ?thesis using assms(3) by (auto simp: offsets_list)
qed

lemma count_adjacent_card:
  "count_adjacent width height board x y
     = card ({d. adj_off width height board x y d} \<inter> set offsets)"
proof -
  have "(\<lambda>(dx, dy). let nx = int x + dx; ny = int y + dy
          in nx \<ge> 0 \<and> nx < int width \<and> ny \<ge> 0 \<and> ny < int height
             \<and> read_cell board (nat nx) (nat ny) = Some Mine)
        = adj_off width height board x y"
    by (rule ext) (simp add: adj_off_def Let_def split_beta)
  then show ?thesis
    unfolding count_adjacent_def
    by (simp only: distinct_length_filter[OF distinct_offsets])
qed

lemma moore_mines_card:
  "moore_mines width height board x y
     = card ({c. adj_cell board x y c} \<inter> set (List.product [0..<width] [0..<height]))"
proof -
  have "(\<lambda>(i, j). (i, j) \<noteq> (x, y) \<and> \<bar>int i - int x\<bar> \<le> 1 \<and> \<bar>int j - int y\<bar> \<le> 1
            \<and> read_cell board i j = Some Mine) = adj_cell board x y"
    by (rule ext) (auto simp: adj_cell_def split_beta)
  moreover have "distinct (List.product [0..<width] [0..<height])"
    by (simp add: distinct_product)
  ultimately show ?thesis
    unfolding moore_mines_def
    by (simp only: distinct_length_filter)
qed

lemma shift_inj:
  "inj_on (shift x y) ({d. adj_off width height board x y d} \<inter> set offsets)"
proof (rule inj_onI)
  fix d e
  assume d: "d \<in> {d. adj_off width height board x y d} \<inter> set offsets"
    and e: "e \<in> {d. adj_off width height board x y d} \<inter> set offsets"
    and eq: "shift x y d = shift x y e"
  from d have d0: "0 \<le> int x + fst d" "0 \<le> int y + snd d" by (simp_all add: adj_off_def)
  from e have e0: "0 \<le> int x + fst e" "0 \<le> int y + snd e" by (simp_all add: adj_off_def)
  from eq have "nat (int x + fst d) = nat (int x + fst e)" "nat (int y + snd d) = nat (int y + snd e)"
    by (simp_all add: shift_def)
  with d0 e0 have "fst d = fst e" "snd d = snd e" by linarith+
  then show "d = e" by (simp add: prod_eq_iff)
qed

lemma shift_image:
  assumes "x < width" "y < height"
  shows "shift x y ` ({d. adj_off width height board x y d} \<inter> set offsets)
       = {c. adj_cell board x y c} \<inter> set (List.product [0..<width] [0..<height])"
proof (rule set_eqI, rule iffI)
  fix c
  assume "c \<in> shift x y ` ({d. adj_off width height board x y d} \<inter> set offsets)"
  then obtain d where a: "adj_off width height board x y d" and o: "d \<in> set offsets"
    and c: "c = shift x y d" by auto
  obtain dx dy where d: "d = (dx, dy)" by (cases d)
  from set_offsets_sub[of dx dy] o d
  have b: "\<bar>dx\<bar> \<le> 1" "\<bar>dy\<bar> \<le> 1" "\<not> (dx = 0 \<and> dy = 0)" by simp_all
  from a d have q: "0 \<le> int x + dx" "int x + dx < int width" "0 \<le> int y + dy"
    "int y + dy < int height"
    "read_cell board (nat (int x + dx)) (nat (int y + dy)) = Some Mine"
    by (simp_all add: adj_off_def)
  have c': "c = (nat (int x + dx), nat (int y + dy))" by (simp add: c d shift_def)
  have 1: "nat (int x + dx) < width" "nat (int y + dy) < height" using q by linarith+
  have 2: "\<bar>int (nat (int x + dx)) - int x\<bar> \<le> 1" "\<bar>int (nat (int y + dy)) - int y\<bar> \<le> 1"
    using q b by linarith+
  have 3: "(nat (int x + dx), nat (int y + dy)) \<noteq> (x, y)"
  proof
    assume "(nat (int x + dx), nat (int y + dy)) = (x, y)"
    then have "nat (int x + dx) = x" "nat (int y + dy) = y" by simp_all
    with q have "dx = 0" "dy = 0" by linarith+
    with b(3) show False by simp
  qed
  from 1 2 3 q(5) show "c \<in> {c. adj_cell board x y c} \<inter> set (List.product [0..<width] [0..<height])"
    unfolding c' by (simp add: adj_cell_def)
next
  fix c
  assume "c \<in> {c. adj_cell board x y c} \<inter> set (List.product [0..<width] [0..<height])"
  then have a: "adj_cell board x y c" and g: "fst c < width" "snd c < height"
    by (auto simp: mem_Times_iff)
  let ?d = "(int (fst c) - int x, int (snd c) - int y)"
  from a have r: "c \<noteq> (x, y)" "\<bar>int (fst c) - int x\<bar> \<le> 1" "\<bar>int (snd c) - int y\<bar> \<le> 1"
    "read_cell board (fst c) (snd c) = Some Mine" by (simp_all add: adj_cell_def)
  from r(1) have "\<not> (int (fst c) - int x = 0 \<and> int (snd c) - int y = 0)"
    by (auto simp: prod_eq_iff)
  from set_offsets_sup[OF r(2,3) this] have o: "?d \<in> set offsets" .
  have s: "shift x y ?d = c" by (simp add: shift_def)
  have "adj_off width height board x y ?d"
    using g r(4) by (simp add: adj_off_def)
  with o have "?d \<in> {d. adj_off width height board x y d} \<inter> set offsets" by simp
  then have "shift x y ?d \<in> shift x y ` ({d. adj_off width height board x y d} \<inter> set offsets)"
    by (rule imageI)
  then show "c \<in> shift x y ` ({d. adj_off width height board x y d} \<inter> set offsets)"
    by (simp only: s)
qed

lemma count_adjacent_moore:
  assumes "x < width" "y < height"
  shows "count_adjacent width height board x y = moore_mines width height board x y"
  unfolding count_adjacent_card moore_mines_card shift_image[OF assms, symmetric]
  by (rule card_image[OF shift_inj, symmetric])

lemma generateMinefield_placing:
  assumes "generateMinefield width height mineCount draws = Returned board"
    and "draws_ok width height draws"
  obtains b where "placing_inv width height b mineCount"
    and "board = calculate_numbers width height b"
proof -
  from assms(1) obtain b where
    p: "place_mines (width div 2) (height div 2) mineCount draws
          (replicate height (replicate width (Num 0))) 0 = Returned b"
    and c: "board = calculate_numbers width height b"
    by (auto simp: generateMinefield_def Let_def split: outcome.splits)
  from place_mines_returned[OF p assms(2) placing_inv_init] have "placing_inv width height b mineCount"
    by simp
  with c that show thesis by blast
qed

text \<open>
  Claim C2. Every board that \<^verbatim>\<open>generateMinefield(width, height, mineCount)\<close> returns holds
  exactly \<open>mineCount\<close> mines, has no mine in the 3x3 block around
  \<open>(width div 2, height div 2)\<close>, and every cell of the grid that is not a mine holds the
  number of mines among its neighbours inside the grid, as a recount over all cells of the grid
  gives it.
\<close>

theorem generateMinefield_board:
  assumes "generateMinefield width height mineCount draws = Returned board"
    and "draws_ok width height draws"
  shows "countMines board = mineCount
       \<and> (\<forall>x y. y < height \<and> in_safe_area (width div 2) (height div 2) x y
                  \<longrightarrow> read_cell board x y \<noteq> Some Mine)
       \<and> (\<forall>x y. x < width \<and> y < height \<and> read_cell board x y \<noteq> Some Mine
                  \<longrightarrow> read_cell board x y = Some (Num (moore_mines width height board x y)))"
proof -
  from assms obtain b where inv: "placing_inv width height b mineCount"
    and board: "board = calculate_numbers width height b"
    by (rule generateMinefield_placing)
  from inv have len: "length b = height" and cnt: "countMines b = mineCount"
    and rows: "0 < width \<longrightarrow> (\<forall>row\<in>set b. length row = width)"
    and safe: "\<forall>x y. y < height \<and> in_safe_area (width div 2) (height div 2) x y
                 \<longrightarrow> \<not> is_mine b x y"
    by (simp_all add: placing_inv_def)
  show ?thesis
  proof (cases "width = 0")
    case True
    with board have "board = b" by (simp add: calculate_numbers_no_columns)
    with cnt safe True show ?thesis by (simp add: is_mine_def)
  next
    case False
    with len rows have r: "rect width height b" by (simp add: rect_def)
    note cn = calculate_numbers_rect[OF r]
    have 1: "countMines board = mineCount" using cn(3) cnt board by simp
    have m: "is_mine board x y = is_mine b x y" for x y using cn(2) board by simp
    have 2: "\<forall>x y. y < height \<and> in_safe_area (width div 2) (height div 2) x y
                  \<longrightarrow> read_cell board x y \<noteq> Some Mine"
      using safe m by (simp add: is_mine_def)
    have 3: "read_cell board x y = Some (Num (moore_mines width height board x y))"
      if "x < width" "y < height" "read_cell board x y \<noteq> Some Mine" for x y
    proof -
      from that(3) m have "\<not> is_mine b x y" by (simp add: is_mine_def)
      from cn(4)[OF that(1,2) this] board
      show ?thesis by (simp add: count_adjacent_moore[OF that(1,2)])
    qed
    from 1 2 3 show ?thesis by blast
  qed
qed

theorem generateMinefield_board_witness:
  "generateMinefield 4 4 (Suc 0) [(1, 1), (0, 0)] = Returned ex_board
 \<and> draws_ok 4 4 [(1, 1), (0, 0)]
 \<and> countMines ex_board = 1
 \<and> read_cell ex_board 2 2 \<noteq> Some Mine
 \<and> read_cell ex_board 1 1 = Some (Num (moore_mines 4 4 ex_board 1 1))
 \<and> moore_mines 4 4 ex_board 1 1 = 1"
proof -
  have d: "draws_ok 4 4 [(1, 1), (0, 0)]" by (simp add: draws_ok_def draw_ok_def)
  have s: "in_safe_area (4 div 2) (4 div 2) 2 2" by (simp add: in_safe_area_def)
  have n: "read_cell ex_board 1 1 \<noteq> Some Mine" by (simp add: read_cell_def ex_board_def)
  have k: "read_cell ex_board 1 1 = Some (Num 1)" by (simp add: read_cell_def ex_board_def)
  from generateMinefield_board[OF ex_generate d]
  have "countMines ex_board = Suc 0"
    and "read_cell ex_board 2 2 \<noteq> Some Mine"
    and "read_cell ex_board 1 1 = Some (Num (moore_mines 4 4 ex_board 1 1))"
    using s n by simp_all
  with k d ex_generate show ?thesis by simp
qed




end
